theory Spec2Isabelle
  imports Main
begin

section \<open>The process and its environment\<close>

text \<open>
  \<^verbatim>\<open>lsh.c\<close> is a single process that talks to the operating system: it reads
  standard input, writes the two output streams, allocates memory, changes directory,
  forks and waits. The embedding runs the code of one process on an explicit
  \<open>world\<close>; every answer of the operating system that the code branches on is a field
  of that record, so each branch of the source is a branch of the model.
\<close>

type_synonym errno = string \<comment> \<open>the text \<^verbatim>\<open>strerror(errno)\<close> of a failed call\<close>
type_synonym pid = nat

text \<open>What one successful or failed \<^verbatim>\<open>waitpid(pid, &status, WUNTRACED)\<close> reports.\<close>

datatype wait_ret =
    WaitFailed errno \<comment> \<open>the call returned \<^verbatim>\<open>-1\<close>\<close>
  | WStopped \<comment> \<open>neither \<^verbatim>\<open>WIFEXITED\<close> nor \<^verbatim>\<open>WIFSIGNALED\<close>\<close>
  | WExited nat \<comment> \<open>\<^verbatim>\<open>WIFEXITED(status)\<close>, with the exit code\<close>
  | WSignaled nat \<comment> \<open>\<^verbatim>\<open>WIFSIGNALED(status)\<close>, with the signal\<close>

text \<open>The three classes of return value of \<^verbatim>\<open>fork()\<close> that the code tells apart.\<close>

datatype fork_ret =
    ForkFailed errno \<comment> \<open>\<^verbatim>\<open>pid < 0\<close>\<close>
  | ForkChild \<comment> \<open>\<^verbatim>\<open>pid == 0\<close>: the code that goes on is the child\<close>
  | ForkParent pid \<comment> \<open>\<^verbatim>\<open>pid > 0\<close>: the code that goes on is the parent\<close>

text \<open>
  A \<^verbatim>\<open>char **\<close> argument vector: the slots written so far, \<open>None\<close> for \<^verbatim>\<open>NULL\<close>.
  A token is the content of a C string, so it holds no terminator of its own and
  \<^verbatim>\<open>strcmp(a, b) == 0\<close> is equality.
\<close>

type_synonym argv = "string option list"

record world =
  stdin :: "char list" \<comment> \<open>the unread input; \<^verbatim>\<open>getchar\<close> gives \<^verbatim>\<open>EOF\<close> once it is empty\<close>
  stdout :: string
  stderr :: string
  cwd :: string
  env_USER :: "string option" \<comment> \<open>\<^verbatim>\<open>getenv("USER")\<close>\<close>
  heap :: "bool list"
    \<comment> \<open>the allocator's coming answers, \<open>False\<close> for \<^verbatim>\<open>NULL\<close>; once used up, it grants\<close>
  forks :: "fork_ret list" \<comment> \<open>the coming results of \<^verbatim>\<open>fork\<close>\<close>
  children :: "pid \<Rightarrow> wait_ret list"
    \<comment> \<open>what \<^verbatim>\<open>waitpid\<close> will report for each child, in order\<close>
  chdir_os :: "string \<Rightarrow> string \<Rightarrow> errno + string"
    \<comment> \<open>the file system: from a working directory and a path, the error or the new directory\<close>
  execvp_os :: "string \<Rightarrow> argv \<Rightarrow> errno option"
    \<comment> \<open>the execution-path lookup: \<open>None\<close> when the image is found and replaced\<close>
  getcwd_null :: "nat \<Rightarrow> string \<Rightarrow> bool"
    \<comment> \<open>the C library on \<^verbatim>\<open>getcwd(NULL, size)\<close>, which POSIX leaves open: from the size
      and the working directory, whether it returns a buffer of its own\<close>

text \<open>
  How a call can end without returning to its caller: the process exits, its image is
  replaced, it blocks for good, or the C code leaves defined behaviour.
\<close>

datatype stop =
    Exit nat \<comment> \<open>\<^verbatim>\<open>exit(code)\<close>\<close>
  | ImageReplaced string argv \<comment> \<open>\<^verbatim>\<open>execvp\<close> succeeded\<close>
  | BlockedForever \<comment> \<open>\<^verbatim>\<open>waitpid\<close> on a child that never changes state again\<close>
  | SignedOverflow \<comment> \<open>an \<^verbatim>\<open>int\<close> addition beyond \<^verbatim>\<open>INT_MAX\<close>\<close>
  | OutOfBounds \<comment> \<open>an access beyond the slots of an array\<close>
  | NullPointer \<comment> \<open>a \<^verbatim>\<open>NULL\<close> handed to a call that needs a buffer or a string\<close>

text \<open>A call either stops (\<open>Inl\<close>) or returns a value (\<open>Inr\<close>), in both cases with the world it leaves.\<close>

type_synonym 'a res = "(stop \<times> world) + ('a \<times> world)"

definition EXIT_SUCCESS :: nat where
  "EXIT_SUCCESS = 0"

definition EXIT_FAILURE :: nat where
  "EXIT_FAILURE = 1"

definition INT_MAX :: nat where
  "INT_MAX = 2147483647"

definition NUL :: char where
  "NUL = CHR 0x00"

definition NL :: char where
  "NL = CHR 0x0A"

definition LSH_RL_BUFSIZE :: nat where
  "LSH_RL_BUFSIZE = 1024"

definition LSH_TOK_BUFSIZE :: nat where
  "LSH_TOK_BUFSIZE = 64"

definition LSH_TOK_DELIM :: string where
  "LSH_TOK_DELIM = [CHR 0x20, CHR 0x09, CHR 0x0D, CHR 0x0A, CHR 0x07]"

definition LSH_CURRDIR_BUFSIZE :: nat where
  "LSH_CURRDIR_BUFSIZE = 16"

subsection \<open>Library calls\<close>

definition printf :: "string \<Rightarrow> world \<Rightarrow> world" where
  "printf s w = w\<lparr>stdout := stdout w @ s\<rparr>"

definition eprintf :: "string \<Rightarrow> world \<Rightarrow> world" where
  "eprintf s w = w\<lparr>stderr := stderr w @ s\<rparr>"

text \<open>\<^verbatim>\<open>perror(s)\<close> after a call that failed with \<open>e\<close>.\<close>

definition perror :: "string \<Rightarrow> errno \<Rightarrow> world \<Rightarrow> world" where
  "perror s e w = eprintf (s @ '': '' @ e @ [NL]) w"

text \<open>
  \<^verbatim>\<open>malloc\<close> and \<^verbatim>\<open>realloc\<close>: \<open>True\<close> for a block, \<open>False\<close> for \<^verbatim>\<open>NULL\<close>.
  \<^verbatim>\<open>realloc\<close> keeps the bytes of the old block, so the model's buffers are lists
  that stay as they are when the capacity grows. \<^verbatim>\<open>free\<close> changes nothing the
  code can observe.
\<close>

definition malloc :: "nat \<Rightarrow> world \<Rightarrow> bool \<times> world" where
  "malloc nbytes w = (case heap w of [] \<Rightarrow> (True, w) | b # bs \<Rightarrow> (b, w\<lparr>heap := bs\<rparr>))"

definition realloc :: "nat \<Rightarrow> world \<Rightarrow> bool \<times> world" where
  "realloc nbytes w = (case heap w of [] \<Rightarrow> (True, w) | b # bs \<Rightarrow> (b, w\<lparr>heap := bs\<rparr>))"

text \<open>\<^verbatim>\<open>getchar\<close>: \<open>None\<close> is \<^verbatim>\<open>EOF\<close>.\<close>

definition getchar :: "world \<Rightarrow> char option \<times> world" where
  "getchar w = (case stdin w of [] \<Rightarrow> (None, w) | c # cs \<Rightarrow> (Some c, w\<lparr>stdin := cs\<rparr>))"

text \<open>
  \<^verbatim>\<open>getcwd(buf, size)\<close>: whether it returns a pointer and not \<^verbatim>\<open>NULL\<close>. \<open>buf\<close> says
  that the buffer is there. On a buffer it fails (\<^verbatim>\<open>ERANGE\<close>) unless the directory and
  its terminator fit, and after a success the buffer holds the directory. On \<^verbatim>\<open>NULL\<close>
  the C library decides; the caller's pointer stays \<^verbatim>\<open>NULL\<close> either way.
\<close>

definition getcwd :: "bool \<Rightarrow> nat \<Rightarrow> world \<Rightarrow> bool" where
  "getcwd buf nbytes w =
     (if buf then length (cwd w) < nbytes else getcwd_null w nbytes (cwd w))"

definition chdir :: "string \<Rightarrow> world \<Rightarrow> errno option \<times> world" where
  "chdir path w =
     (case chdir_os w (cwd w) path of
        Inl e \<Rightarrow> (Some e, w)
      | Inr d \<Rightarrow> (None, w\<lparr>cwd := d\<rparr>))"

text \<open>\<^verbatim>\<open>fork\<close>: with no answer left for it, the system has no process to give.\<close>

definition fork :: "world \<Rightarrow> fork_ret \<times> world" where
  "fork w =
     (case forks w of
        [] \<Rightarrow> (ForkFailed ''Resource temporarily unavailable'', w)
      | r # rs \<Rightarrow> (r, w\<lparr>forks := rs\<rparr>))"

text \<open>\<^verbatim>\<open>waitpid(pid, &status, WUNTRACED)\<close>: \<open>None\<close> when the call never returns.\<close>

definition waitpid :: "pid \<Rightarrow> world \<Rightarrow> wait_ret option \<times> world" where
  "waitpid p w =
     (case children w p of
        [] \<Rightarrow> (None, w)
      | e # es \<Rightarrow> (Some e, w\<lparr>children := (children w)(p := es)\<rparr>))"

text \<open>The bytes of a buffer up to its first terminator: what a C string function sees.\<close>

definition c_str :: "char list \<Rightarrow> string" where
  "c_str buffer = takeWhile (\<lambda>c. c \<noteq> NUL) buffer"

section \<open>The line reader\<close>

text \<open>
  \<^verbatim>\<open>lsh_read_line\<close>. The block behind \<^verbatim>\<open>buffer\<close> is its capacity \<open>bufsize\<close> and
  the bytes written so far, indices \<open>0\<close> to \<open>position - 1\<close>; a write at \<open>position\<close>
  appends, and is checked against the capacity. \<^verbatim>\<open>position++\<close> stays below
  \<^verbatim>\<open>INT_MAX\<close> as long as the write before it was inside the block;
  \<^verbatim>\<open>bufsize += LSH_RL_BUFSIZE\<close> is the addition that can leave the range of \<^verbatim>\<open>int\<close>.
  The result is the block: its capacity and its bytes, terminator included.
\<close>

function read_loop :: "nat \<Rightarrow> nat \<Rightarrow> char list \<Rightarrow> world \<Rightarrow> (nat \<times> char list) res" where
  "read_loop bufsize position buffer w =
     (case getchar w of
        (None, w1) \<Rightarrow>
          if position < bufsize then Inr ((bufsize, buffer @ [NUL]), w1)
          else Inl (OutOfBounds, w1)
      | (Some c, w1) \<Rightarrow>
          if c = NL then
            if position < bufsize then Inr ((bufsize, buffer @ [NUL]), w1)
            else Inl (OutOfBounds, w1)
          else if \<not> position < bufsize then Inl (OutOfBounds, w1)
          else if position + 1 \<ge> bufsize then
            if bufsize + LSH_RL_BUFSIZE > INT_MAX then Inl (SignedOverflow, w1)
            else
              (case realloc (bufsize + LSH_RL_BUFSIZE) w1 of
                 (False, w2) \<Rightarrow>
                   Inl (Exit EXIT_FAILURE, eprintf (''lsh: allocation error'' @ [NL]) w2)
               | (True, w2) \<Rightarrow>
                   read_loop (bufsize + LSH_RL_BUFSIZE) (position + 1) (buffer @ [c]) w2)
          else read_loop bufsize (position + 1) (buffer @ [c]) w1)"
  by pat_completeness auto
termination
  by (relation "measure (\<lambda>(bufsize, position, buffer, w). length (stdin w))")
     (auto simp: getchar_def realloc_def split: list.splits)

declare read_loop.simps [simp del]

definition lsh_read_line :: "world \<Rightarrow> (nat \<times> char list) res" where
  "lsh_read_line w =
     (case malloc LSH_RL_BUFSIZE w of
        (False, w1) \<Rightarrow>
          Inl (Exit EXIT_FAILURE, eprintf (''lsh: allocation error'' @ [NL]) w1)
      | (True, w1) \<Rightarrow> read_loop LSH_RL_BUFSIZE 0 [] w1)"

section \<open>The tokenizer\<close>

text \<open>
  \<^verbatim>\<open>strtok\<close> on the text its saved pointer still has to scan: it skips the
  delimiters in front, gives no token when nothing is left, and otherwise ends the token
  at the next delimiter (which it overwrites) and saves the text behind it.
\<close>

definition strtok :: "string \<Rightarrow> string \<Rightarrow> (string \<times> string) option" where
  "strtok delim s =
     (let s1 = dropWhile (\<lambda>c. c \<in> set delim) s in
      if s1 = [] then None
      else Some (takeWhile (\<lambda>c. c \<notin> set delim) s1,
                 drop 1 (dropWhile (\<lambda>c. c \<notin> set delim) s1)))"

definition sizeof_ptr :: nat where
  "sizeof_ptr = 8"

text \<open>
  The loop of \<^verbatim>\<open>lsh_split_line\<close>: \<open>token\<close> is what the last \<^verbatim>\<open>strtok\<close> gave,
  the token and the text still to scan, or \<open>None\<close> for \<^verbatim>\<open>NULL\<close>.
\<close>

function split_loop ::
  "(string \<times> string) option \<Rightarrow> nat \<Rightarrow> nat \<Rightarrow> argv \<Rightarrow> world \<Rightarrow> (nat \<times> argv) res" where
  "split_loop token bufsize position tokens w =
     (case token of
        None \<Rightarrow>
          if position < bufsize then Inr ((bufsize, tokens @ [None]), w)
          else Inl (OutOfBounds, w)
      | Some (t, rest) \<Rightarrow>
          if \<not> position < bufsize then Inl (OutOfBounds, w)
          else if position + 1 \<ge> bufsize then
            if bufsize + LSH_TOK_BUFSIZE > INT_MAX then Inl (SignedOverflow, w)
            else
              (case realloc ((bufsize + LSH_TOK_BUFSIZE) * sizeof_ptr) w of
                 (False, w1) \<Rightarrow>
                   Inl (Exit EXIT_FAILURE, eprintf (''lsh: allocation error'' @ [NL]) w1)
               | (True, w1) \<Rightarrow>
                   split_loop (strtok LSH_TOK_DELIM rest) (bufsize + LSH_TOK_BUFSIZE)
                     (position + 1) (tokens @ [Some t]) w1)
          else
            split_loop (strtok LSH_TOK_DELIM rest) bufsize (position + 1)
              (tokens @ [Some t]) w)"
  by pat_completeness auto
termination
proof -
  have shorter: "length r < length s" if a: "strtok delim s = Some (t, r)" for delim s t r
  proof -
    define s1 where "s1 = dropWhile (\<lambda>c. c \<in> set delim) s"
    from a have ne: "s1 \<noteq> []" and r: "r = drop 1 (dropWhile (\<lambda>c. c \<notin> set delim) s1)"
      by (auto simp: strtok_def s1_def Let_def split: if_splits)
    from ne have "hd s1 \<notin> set delim"
      unfolding s1_def by (rule hd_dropWhile)
    with ne have "takeWhile (\<lambda>c. c \<notin> set delim) s1 \<noteq> []"
      by (cases s1) auto
    then have "length (dropWhile (\<lambda>c. c \<notin> set delim) s1) < length s1"
      by (metis length_greater_0_conv length_append takeWhile_dropWhile_id less_add_same_cancel2)
    moreover have "length s1 \<le> length s"
      unfolding s1_def by (rule length_dropWhile_le)
    ultimately show ?thesis
      by (simp add: r)
  qed
  show ?thesis
    by (relation "measure (\<lambda>(token, bufsize, position, tokens, w).
          case token of None \<Rightarrow> 0 | Some (t, rest) \<Rightarrow> Suc (length rest))")
       (auto split: option.splits dest: shorter)
qed

declare split_loop.simps [simp del]

definition lsh_split_line :: "char list \<Rightarrow> world \<Rightarrow> (nat \<times> argv) res" where
  "lsh_split_line line w =
     (case malloc (LSH_TOK_BUFSIZE * sizeof_ptr) w of
        (False, w1) \<Rightarrow>
          Inl (Exit EXIT_FAILURE, eprintf (''lsh: allocation error'' @ [NL]) w1)
      | (True, w1) \<Rightarrow>
          split_loop (strtok LSH_TOK_DELIM (c_str line)) LSH_TOK_BUFSIZE 0 [] w1)"

section \<open>The process launcher\<close>

text \<open>The \<^verbatim>\<open>do ... while\<close> of the parent: one \<^verbatim>\<open>waitpid\<close>, then the test of the status.\<close>

function wait_loop :: "pid \<Rightarrow> world \<Rightarrow> unit res" where
  "wait_loop p w =
     (case waitpid p w of
        (None, w1) \<Rightarrow> Inl (BlockedForever, w1)
      | (Some (WaitFailed e), w1) \<Rightarrow> Inl (Exit EXIT_FAILURE, perror ''lsh'' e w1)
      | (Some WStopped, w1) \<Rightarrow> wait_loop p w1
      | (Some (WExited code), w1) \<Rightarrow> Inr ((), w1)
      | (Some (WSignaled sig), w1) \<Rightarrow> Inr ((), w1))"
  by pat_completeness auto
termination
  by (relation "measure (\<lambda>(p, w). length (children w p))")
     (auto simp: waitpid_def split: list.splits)

declare wait_loop.simps [simp del]

definition lsh_launch :: "argv \<Rightarrow> world \<Rightarrow> int res" where
  "lsh_launch args w =
     (case fork w of
        (ForkChild, w1) \<Rightarrow>
          (case args of
             [] \<Rightarrow> Inl (OutOfBounds, w1)
           | None # _ \<Rightarrow> Inl (NullPointer, w1)
           | Some file # _ \<Rightarrow>
               (case execvp_os w1 file args of
                  None \<Rightarrow> Inl (ImageReplaced file args, w1)
                | Some e \<Rightarrow> Inl (Exit EXIT_FAILURE, perror ''lsh'' e w1)))
      | (ForkFailed e, w1) \<Rightarrow> Inr (1, perror ''lsh'' e w1)
      | (ForkParent p, w1) \<Rightarrow>
          (case wait_loop p w1 of
             Inl s \<Rightarrow> Inl s
           | Inr (_, w2) \<Rightarrow> Inr (1, w2)))"

section \<open>The builtins and the dispatcher\<close>

definition builtin_str :: "string list" where
  "builtin_str = [''cd'', ''help'', ''exit'']"

definition lsh_num_builtins :: nat where
  "lsh_num_builtins = length builtin_str"

definition cd_usage :: string where
  "cd_usage = ''lsh: expected argument to '' @ [CHR 0x22] @ ''cd'' @ [CHR 0x22, NL]"

fun lsh_cd :: "argv \<Rightarrow> world \<Rightarrow> int res" where
  "lsh_cd (a0 # None # rest) w = Inr (1, eprintf cd_usage w)"
| "lsh_cd (a0 # Some path # rest) w =
     (case chdir path w of
        (Some e, w1) \<Rightarrow> Inr (1, perror ''lsh'' e w1)
      | (None, w1) \<Rightarrow> Inr (1, w1))"
| "lsh_cd args w = Inl (OutOfBounds, w)"

definition lsh_help :: "argv \<Rightarrow> world \<Rightarrow> int res" where
  "lsh_help args w =
     (let w1 = printf (''Stephen Brennan'' @ [CHR 0x27] @ ''s LSH'' @ [NL]) w;
          w2 = printf (''Type program names and arguments, and hit enter.'' @ [NL]) w1;
          w3 = printf (''The following are built in:'' @ [NL]) w2;
          w4 = fold (\<lambda>name. printf ([CHR 0x09] @ name @ [NL])) builtin_str w3
      in Inr (1, printf (''Use the man command for information on other programs.'' @ [NL]) w4))"

definition lsh_exit :: "argv \<Rightarrow> world \<Rightarrow> int res" where
  "lsh_exit args w = Inr (0, w)"

definition builtin_func :: "(argv \<Rightarrow> world \<Rightarrow> int res) list" where
  "builtin_func = [lsh_cd, lsh_help, lsh_exit]"

text \<open>The \<^verbatim>\<open>for\<close> loop of \<^verbatim>\<open>lsh_execute\<close> from index \<open>i\<close>, on the command \<^verbatim>\<open>args[0]\<close>.\<close>

function execute_loop :: "nat \<Rightarrow> string \<Rightarrow> argv \<Rightarrow> world \<Rightarrow> int res" where
  "execute_loop i cmd args w =
     (if i < lsh_num_builtins then
        if cmd = builtin_str ! i then (builtin_func ! i) args w
        else execute_loop (i + 1) cmd args w
      else lsh_launch args w)"
  by pat_completeness auto
termination
  by (relation "measure (\<lambda>(i, cmd, args, w). lsh_num_builtins - i)") auto

declare execute_loop.simps [simp del]

definition lsh_execute :: "argv \<Rightarrow> world \<Rightarrow> int res" where
  "lsh_execute args w =
     (case args of
        [] \<Rightarrow> Inl (OutOfBounds, w)
      | None # _ \<Rightarrow> Inr (1, w)
      | Some cmd # _ \<Rightarrow> execute_loop 0 cmd args w)"

section \<open>The prompt and the main loop\<close>

text \<open>
  The \<^verbatim>\<open>while\<close> of \<^verbatim>\<open>lsh_shellprompt\<close>. \<open>curr_dir\<close> says that the pointer of that
  name is a block and not \<^verbatim>\<open>NULL\<close>; \<open>nbytes\<close> is \<^verbatim>\<open>size\<close>, a \<^verbatim>\<open>size_t\<close>, far
  from its range at the length of any path. The result is what \<^verbatim>\<open>curr_dir\<close> points to
  after the loop: the directory, or nothing when it is still \<^verbatim>\<open>NULL\<close>.
  \<^verbatim>\<open>realloc\<close> of \<^verbatim>\<open>NULL\<close> allocates.
\<close>

function prompt_loop :: "bool \<Rightarrow> nat \<Rightarrow> world \<Rightarrow> string option res" where
  "prompt_loop curr_dir nbytes w =
     (if getcwd curr_dir nbytes w then Inr (if curr_dir then Some (cwd w) else None, w)
      else
        (case realloc (nbytes + LSH_CURRDIR_BUFSIZE) w of
           (False, w1) \<Rightarrow>
             Inl (Exit EXIT_FAILURE, eprintf (''lsh: allocation error'' @ [NL]) w1)
         | (True, w1) \<Rightarrow> prompt_loop True (nbytes + LSH_CURRDIR_BUFSIZE) w1))"
  by pat_completeness auto
termination
  by (relation "measure (\<lambda>(curr_dir, nbytes, w).
        (if curr_dir then 0 else length (cwd w) + 2) + (Suc (length (cwd w)) - nbytes))")
     (auto simp: getcwd_def realloc_def LSH_CURRDIR_BUFSIZE_def split: list.splits if_splits)

declare prompt_loop.simps [simp del]

text \<open>
  \<^verbatim>\<open>printf("%s@%s> ", user, curr_dir)\<close>; a \<^verbatim>\<open>NULL\<close> string is printed the way the
  C libraries in use print it.
\<close>

definition prompt_text :: "string option \<Rightarrow> string option \<Rightarrow> string" where
  "prompt_text user curr_dir =
     (case user of None \<Rightarrow> ''(null)'' | Some u \<Rightarrow> u) @ ''@'' @
     (case curr_dir of None \<Rightarrow> ''(null)'' | Some d \<Rightarrow> d) @ ''> ''"

text \<open>
  \<^verbatim>\<open>lsh_shellprompt\<close>. The result of its \<^verbatim>\<open>malloc\<close> is not tested: block or
  \<^verbatim>\<open>NULL\<close>, it goes to \<^verbatim>\<open>getcwd\<close> and into the loop.
\<close>

definition lsh_shellprompt :: "world \<Rightarrow> unit res" where
  "lsh_shellprompt w =
     (case malloc LSH_CURRDIR_BUFSIZE w of
        (curr_dir, w1) \<Rightarrow>
          (case prompt_loop curr_dir LSH_CURRDIR_BUFSIZE w1 of
             Inl s \<Rightarrow> Inl s
           | Inr (d, w2) \<Rightarrow>
               Inr ((), printf (prompt_text (env_USER w1) d) w2)))"

text \<open>One pass through the body of the \<^verbatim>\<open>do ... while\<close> of \<^verbatim>\<open>lsh_loop\<close>: the status.\<close>

definition loop_body :: "world \<Rightarrow> int res" where
  "loop_body w =
     (case lsh_shellprompt w of
        Inl s \<Rightarrow> Inl s
      | Inr (_, w1) \<Rightarrow>
          (case lsh_read_line w1 of
             Inl s \<Rightarrow> Inl s
           | Inr ((_, line), w2) \<Rightarrow>
               (case lsh_split_line line w2 of
                  Inl s \<Rightarrow> Inl s
                | Inr ((_, args), w3) \<Rightarrow> lsh_execute args w3)))"

text \<open>
  \<^verbatim>\<open>lsh_loop\<close> can run for ever, so it takes the number of passes it may make:
  \<open>Running w\<close> says that after that many passes it is about to start the next one, in
  the world \<open>w\<close>; \<open>Done\<close> says how it ended.
\<close>

datatype run = Running world | Done "unit res"

fun lsh_loop :: "nat \<Rightarrow> world \<Rightarrow> run" where
  "lsh_loop 0 w = Running w"
| "lsh_loop (Suc n) w =
     (case loop_body w of
        Inl s \<Rightarrow> Done (Inl s)
      | Inr (status, w1) \<Rightarrow>
          if status \<noteq> 0 then lsh_loop n w1 else Done (Inr ((), w1)))"

text \<open>\<^verbatim>\<open>main\<close>: how the process ends, if it does within \<open>n\<close> passes.\<close>

definition lsh_main :: "nat \<Rightarrow> world \<Rightarrow> (stop \<times> world) option" where
  "lsh_main n w =
     (case lsh_loop n w of
        Running _ \<Rightarrow> None
      | Done (Inl s) \<Rightarrow> Some s
      | Done (Inr (_, w1)) \<Rightarrow> Some (Exit EXIT_SUCCESS, w1))"

section \<open>What the properties are stated with\<close>

text \<open>An allocator that grants every request still to come.\<close>

definition never_fails :: "world \<Rightarrow> bool" where
  "never_fails w = list_all (\<lambda>b. b) (heap w)"

text \<open>
  The tokenizer as its contract words it: the line is cut at every single delimiter
  (\<open>pieces\<close>, which leaves an empty piece between two delimiters in a row), and the
  empty pieces are dropped.
\<close>

fun pieces :: "string \<Rightarrow> string \<Rightarrow> string list" where
  "pieces delim [] = [[]]"
| "pieces delim (c # cs) =
     (if c \<in> set delim then [] # pieces delim cs
      else (c # hd (pieces delim cs)) # tl (pieces delim cs))"

definition words_spec :: "string \<Rightarrow> string \<Rightarrow> string list" where
  "words_spec delim s = filter (\<lambda>t. t \<noteq> []) (pieces delim s)"

text \<open>
  A world to run the code on: nothing to read, an allocator that grants, no process to
  fork, a file system with the one directory \<^verbatim>\<open>/tmp\<close> and the one program \<^verbatim>\<open>ls\<close>,
  a C library whose \<^verbatim>\<open>getcwd(NULL, size)\<close> gives a buffer when \<open>size\<close> bytes are enough.
\<close>

definition quiet_world :: world where
  "quiet_world =
     \<lparr>stdin = [], stdout = [], stderr = [], cwd = ''/home/user/projects'',
      env_USER = Some ''user'', heap = [], forks = [], children = (\<lambda>p. []),
      chdir_os = (\<lambda>d path. if path = ''/tmp'' then Inr ''/tmp''
                            else Inl ''No such file or directory''),
      execvp_os = (\<lambda>file args. if file = ''ls'' then None
                                else Some ''No such file or directory''),
      getcwd_null = (\<lambda>nbytes d. length d < nbytes)\<rparr>"

text \<open>The same world with a line for the \<^verbatim>\<open>exit\<close> builtin and more input behind it.\<close>

definition exit_session :: world where
  "exit_session = quiet_world\<lparr>stdin := ''exit now'' @ [NL] @ ''ls''\<rparr>"

text \<open>
  A parent right before \<^verbatim>\<open>fork\<close>: the child will be process 7, and \<^verbatim>\<open>waitpid\<close>
  will report \<open>evs\<close> for it.
\<close>

definition waiting_world :: "wait_ret list \<Rightarrow> world" where
  "waiting_world evs =
     quiet_world\<lparr>forks := [ForkParent 7],
                 children := (\<lambda>q. if q = 7 then evs else [WExited 0])\<rparr>"

text \<open>
  A process about to read the line \<^verbatim>\<open>nosuch -x\<close>, a program that is not there, with
  the answers of \<^verbatim>\<open>fork\<close> and \<^verbatim>\<open>waitpid\<close> to come.
\<close>

definition launch_session :: "fork_ret list \<Rightarrow> (pid \<Rightarrow> wait_ret list) \<Rightarrow> world" where
  "launch_session fk ch =
     quiet_world\<lparr>stdin := ''nosuch -x'' @ [NL], forks := fk, children := ch\<rparr>"

text \<open>The quiet world with an empty line and then a line for the \<^verbatim>\<open>exit\<close> builtin to read.\<close>

definition blank_then_exit :: world where
  "blank_then_exit = quiet_world\<lparr>stdin := NL # ''exit'' @ [NL]\<rparr>"

section \<open>Properties\<close>

subsection \<open>Allocation\<close>

lemma malloc_granted: "never_fails w \<Longrightarrow> malloc n w = (True, w\<lparr>heap := tl (heap w)\<rparr>)"
  by (cases "heap w") (auto simp: malloc_def never_fails_def)

lemma realloc_granted: "never_fails w \<Longrightarrow> realloc n w = (True, w\<lparr>heap := tl (heap w)\<rparr>)"
  by (cases "heap w") (auto simp: realloc_def never_fails_def)

lemma never_fails_drop: "never_fails w \<Longrightarrow> heap w' = drop k (heap w) \<Longrightarrow> never_fails w'"
  by (auto simp: never_fails_def list_all_iff dest: in_set_dropD)

lemma never_fails_tl: "never_fails w \<Longrightarrow> heap w' = tl (heap w) \<Longrightarrow> never_fails w'"
  using never_fails_drop [of w w' 1] by (simp add: drop_Suc)

subsection \<open>The line reader\<close>

lemma getchar_Nil: "stdin w = [] \<Longrightarrow> getchar w = (None, w)"
  by (simp add: getchar_def)

lemma getchar_Cons: "stdin w = c # cs \<Longrightarrow> getchar w = (Some c, w\<lparr>stdin := cs\<rparr>)"
  by (simp add: getchar_def)

lemma read_loop_eof:
  "stdin w = [] \<Longrightarrow> position < bufsize \<Longrightarrow>
   read_loop bufsize position buffer w = Inr ((bufsize, buffer @ [NUL]), w)"
  by (subst read_loop.simps) (simp add: getchar_Nil)

lemma read_loop_newline:
  "stdin w = NL # cs \<Longrightarrow> position < bufsize \<Longrightarrow>
   read_loop bufsize position buffer w = Inr ((bufsize, buffer @ [NUL]), w\<lparr>stdin := cs\<rparr>)"
  by (subst read_loop.simps) (simp add: getchar_Cons)

lemma read_loop_store:
  "stdin w = c # cs \<Longrightarrow> c \<noteq> NL \<Longrightarrow> position + 1 < bufsize \<Longrightarrow>
   read_loop bufsize position buffer w =
   read_loop bufsize (position + 1) (buffer @ [c]) (w\<lparr>stdin := cs\<rparr>)"
  by (subst read_loop.simps) (simp add: getchar_Cons)

lemma read_loop_grow:
  "stdin w = c # cs \<Longrightarrow> c \<noteq> NL \<Longrightarrow> position + 1 = bufsize \<Longrightarrow>
   bufsize + LSH_RL_BUFSIZE \<le> INT_MAX \<Longrightarrow> never_fails w \<Longrightarrow>
   read_loop bufsize position buffer w =
   read_loop (bufsize + LSH_RL_BUFSIZE) (position + 1) (buffer @ [c])
     (w\<lparr>stdin := cs, heap := tl (heap w)\<rparr>)"
  by (subst read_loop.simps)
     (simp add: getchar_Cons realloc_granted never_fails_def)

lemma read_loop_overflow_step:
  "stdin w = c # cs \<Longrightarrow> c \<noteq> NL \<Longrightarrow> position + 1 = bufsize \<Longrightarrow>
   INT_MAX < bufsize + LSH_RL_BUFSIZE \<Longrightarrow>
   read_loop bufsize position buffer w = Inl (SignedOverflow, w\<lparr>stdin := cs\<rparr>)"
  by (subst read_loop.simps) (simp add: getchar_Cons)

lemma read_loop_full:
  assumes "never_fails w"
    and "bufsize = 1024 * (position div 1024 + 1)"
    and "position + length (takeWhile (\<lambda>c. c \<noteq> NL) (stdin w)) < 2147482624"
  shows "read_loop bufsize position buffer w =
         Inr ((1024 * ((position + length (takeWhile (\<lambda>c. c \<noteq> NL) (stdin w))) div 1024 + 1),
               buffer @ takeWhile (\<lambda>c. c \<noteq> NL) (stdin w) @ [NUL]),
              w\<lparr>stdin := drop (Suc (length (takeWhile (\<lambda>c. c \<noteq> NL) (stdin w)))) (stdin w),
                heap := drop ((position + length (takeWhile (\<lambda>c. c \<noteq> NL) (stdin w))) div 1024
                              - position div 1024) (heap w)\<rparr>)"
  using assms
proof (induction "stdin w" arbitrary: w bufsize position buffer)
  case Nil
  from Nil(1) [symmetric] Nil(3) have "position < bufsize" by simp
  with Nil(1) [symmetric] Nil(3) show ?case
    by (simp add: read_loop_eof)
next
  case (Cons c cs)
  note st = Cons(2) [symmetric]
  from Cons(4) have lt: "position < bufsize" by simp
  show ?case
  proof (cases "c = NL")
    case True
    with st lt Cons(4) show ?thesis
      by (simp add: read_loop_newline)
  next
    case False
    let ?line = "takeWhile (\<lambda>c. c \<noteq> NL) cs"
    show ?thesis
    proof (cases "position + 1 < bufsize")
      case True
      let ?w1 = "w\<lparr>stdin := cs\<rparr>"
      have div: "(position + 1) div 1024 = position div 1024"
        using True Cons(4) by simp
      have "read_loop bufsize (position + 1) (buffer @ [c]) ?w1 =
            Inr ((1024 * ((position + 1 + length ?line) div 1024 + 1), (buffer @ [c]) @ ?line @ [NUL]),
                 ?w1\<lparr>stdin := drop (Suc (length ?line)) (stdin ?w1),
                     heap := drop ((position + 1 + length ?line) div 1024 - (position + 1) div 1024) (heap ?w1)\<rparr>)"
        using Cons(1) [of ?w1 bufsize "position + 1" "buffer @ [c]"] Cons(3,4,5) st False div
        by (simp add: never_fails_def)
      with st False True div show ?thesis
        by (simp add: read_loop_store)
    next
      case F2: False
      let ?w1 = "w\<lparr>stdin := cs, heap := tl (heap w)\<rparr>"
      from F2 lt have eq: "position + 1 = bufsize" by simp
      have div: "(position + 1) div 1024 = position div 1024 + 1"
        using eq Cons(4) by simp
      have nf: "never_fails ?w1"
        using Cons(3) by (rule never_fails_tl) simp
      have le: "bufsize + LSH_RL_BUFSIZE \<le> INT_MAX"
        using eq Cons(5) st False by (simp add: LSH_RL_BUFSIZE_def INT_MAX_def)
      have mono: "position div 1024 + 1 \<le> (position + 1 + length ?line) div 1024"
        using div div_le_mono [of "position + 1" "position + 1 + length ?line" 1024] by simp
      have "read_loop (bufsize + 1024) (position + 1) (buffer @ [c]) ?w1 =
            Inr ((1024 * ((position + 1 + length ?line) div 1024 + 1), (buffer @ [c]) @ ?line @ [NUL]),
                 ?w1\<lparr>stdin := drop (Suc (length ?line)) (stdin ?w1),
                     heap := drop ((position + 1 + length ?line) div 1024 - (position + 1) div 1024) (heap ?w1)\<rparr>)"
        using Cons(1) [of ?w1 "bufsize + 1024" "position + 1" "buffer @ [c]"] nf Cons(4,5) st False div
        by simp
      moreover have "drop ((position + 1 + length ?line) div 1024 - (position div 1024 + 1)) (tl (heap w)) =
                     drop ((position + 1 + length ?line) div 1024 - position div 1024) (heap w)"
      proof -
        have "drop k (tl (heap w)) = drop (Suc k) (heap w)" for k
          by (simp add: drop_Suc)
        then have "drop ((position + 1 + length ?line) div 1024 - (position div 1024 + 1)) (tl (heap w)) =
                   drop (Suc ((position + 1 + length ?line) div 1024 - (position div 1024 + 1))) (heap w)" .
        also have "Suc ((position + 1 + length ?line) div 1024 - (position div 1024 + 1)) =
                   (position + 1 + length ?line) div 1024 - position div 1024"
          using mono by arith
        finally show ?thesis .
      qed
      ultimately show ?thesis
        using st False eq le Cons(3) div
        by (simp add: read_loop_grow [where cs = cs] LSH_RL_BUFSIZE_def)
    qed
  qed
qed


lemma read_loop_overflow:
  assumes "never_fails w"
    and "bufsize = 1024 * (position div 1024 + 1)"
    and "position < 2147482624"
    and "2147482624 \<le> position + length (takeWhile (\<lambda>c. c \<noteq> NL) (stdin w))"
  shows "read_loop bufsize position buffer w =
         Inl (SignedOverflow,
              w\<lparr>stdin := drop (2147482624 - position) (stdin w),
                heap := drop (2097150 - position div 1024) (heap w)\<rparr>)"
  using assms
proof (induction "stdin w" arbitrary: w bufsize position buffer)
  case Nil
  from Nil(1) [symmetric] Nil(4,5) show ?case by simp
next
  case (Cons c cs)
  note st = Cons(2) [symmetric]
  from Cons(4) have lt: "position < bufsize" by simp
  from Cons(5,6) st have nl: "c \<noteq> NL"
    by (auto split: if_splits)
  let ?line = "takeWhile (\<lambda>c. c \<noteq> NL) cs"
  have dropc: "drop (2147482624 - position) (c # cs) = drop (2147482624 - (position + 1)) cs"
    using Cons(5) by (simp add: drop_Cons' )
  show ?case
  proof (cases "position + 1 < bufsize")
    case True
    let ?w1 = "w\<lparr>stdin := cs\<rparr>"
    have div: "(position + 1) div 1024 = position div 1024"
      using True Cons(4) by simp
    have "position div 1024 < 2097151"
      using Cons(5) by (intro less_mult_imp_div_less) simp
    then have "bufsize \<le> 2147482624"
      using Cons(4) by simp
    with True have small: "position + 1 < 2147482624"
      by simp
    have "read_loop bufsize (position + 1) (buffer @ [c]) ?w1 =
          Inl (SignedOverflow,
               ?w1\<lparr>stdin := drop (2147482624 - (position + 1)) (stdin ?w1),
                   heap := drop (2097150 - (position + 1) div 1024) (heap ?w1)\<rparr>)"
      using Cons(1) [of ?w1 bufsize "position + 1" "buffer @ [c]"] Cons(3,4,6) st nl div small
      by (simp add: never_fails_def)
    with st nl True div dropc show ?thesis
      by (simp add: read_loop_store)
  next
    case F2: False
    from F2 lt have eq: "position + 1 = bufsize" by simp
    have div: "(position + 1) div 1024 = position div 1024 + 1"
      using eq Cons(4) by simp
    show ?thesis
    proof (cases "INT_MAX < bufsize + LSH_RL_BUFSIZE")
      case True
      with eq Cons(5) have p: "position = 2147482623"
        by (simp add: INT_MAX_def LSH_RL_BUFSIZE_def)
      from st nl eq True show ?thesis
        by (simp add: read_loop_overflow_step [where cs = cs] p)
    next
      case False
      let ?w1 = "w\<lparr>stdin := cs, heap := tl (heap w)\<rparr>"
      from False have le: "bufsize + LSH_RL_BUFSIZE \<le> INT_MAX" by simp
      with eq have small: "position + 1 < 2147482624"
        by (simp add: INT_MAX_def LSH_RL_BUFSIZE_def)
      have nf: "never_fails ?w1"
        using Cons(3) by (rule never_fails_tl) simp
      have "(position + 1) div 1024 < 2097151"
        using small by (intro less_mult_imp_div_less) simp
      then have q: "position div 1024 + 1 \<le> 2097150"
        using div by simp
      have "read_loop (bufsize + 1024) (position + 1) (buffer @ [c]) ?w1 =
            Inl (SignedOverflow,
                 ?w1\<lparr>stdin := drop (2147482624 - (position + 1)) (stdin ?w1),
                     heap := drop (2097150 - (position + 1) div 1024) (heap ?w1)\<rparr>)"
        using Cons(1) [of ?w1 "bufsize + 1024" "position + 1" "buffer @ [c]"] nf Cons(4,6) st nl div small
        by simp
      moreover have "drop (2097150 - (position div 1024 + 1)) (tl (heap w)) =
                     drop (2097150 - position div 1024) (heap w)"
      proof -
        have "drop k (tl (heap w)) = drop (Suc k) (heap w)" for k
          by (simp add: drop_Suc)
        then have "drop (2097150 - (position div 1024 + 1)) (tl (heap w)) =
                   drop (Suc (2097150 - (position div 1024 + 1))) (heap w)" .
        also have "Suc (2097150 - (position div 1024 + 1)) = 2097150 - position div 1024"
          using q by arith
        finally show ?thesis .
      qed
      ultimately show ?thesis
        using st nl eq [symmetric] le Cons(3) div dropc
        by (simp add: read_loop_grow [where cs = cs] LSH_RL_BUFSIZE_def)
    qed
  qed
qed

lemma lsh_read_line_full:
  assumes "never_fails w"
    and "length (takeWhile (\<lambda>c. c \<noteq> NL) (stdin w)) < 2147482624"
  shows "lsh_read_line w =
         Inr ((1024 * (length (takeWhile (\<lambda>c. c \<noteq> NL) (stdin w)) div 1024 + 1),
               takeWhile (\<lambda>c. c \<noteq> NL) (stdin w) @ [NUL]),
              w\<lparr>stdin := drop (Suc (length (takeWhile (\<lambda>c. c \<noteq> NL) (stdin w)))) (stdin w),
                heap := drop (Suc (length (takeWhile (\<lambda>c. c \<noteq> NL) (stdin w)) div 1024)) (heap w)\<rparr>)"
proof -
  let ?w1 = "w\<lparr>heap := tl (heap w)\<rparr>"
  have nf: "never_fails ?w1"
    using assms(1) by (rule never_fails_tl) simp
  have "read_loop 1024 0 [] ?w1 =
        Inr ((1024 * ((0 + length (takeWhile (\<lambda>c. c \<noteq> NL) (stdin ?w1))) div 1024 + 1),
               [] @ takeWhile (\<lambda>c. c \<noteq> NL) (stdin ?w1) @ [NUL]),
              ?w1\<lparr>stdin := drop (Suc (length (takeWhile (\<lambda>c. c \<noteq> NL) (stdin ?w1)))) (stdin ?w1),
                heap := drop ((0 + length (takeWhile (\<lambda>c. c \<noteq> NL) (stdin ?w1))) div 1024 - 0 div 1024) (heap ?w1)\<rparr>)"
    using nf assms(2) by (intro read_loop_full) simp_all
  then show ?thesis
    using assms(1) by (simp add: lsh_read_line_def malloc_granted LSH_RL_BUFSIZE_def drop_Suc)
qed

lemma lsh_read_line_overflow:
  assumes "never_fails w"
    and "2147482624 \<le> length (takeWhile (\<lambda>c. c \<noteq> NL) (stdin w))"
  shows "lsh_read_line w =
         Inl (SignedOverflow,
              w\<lparr>stdin := drop 2147482624 (stdin w), heap := drop 2097151 (heap w)\<rparr>)"
proof -
  let ?w1 = "w\<lparr>heap := tl (heap w)\<rparr>"
  have nf: "never_fails ?w1"
    using assms(1) by (rule never_fails_tl) simp
  have "read_loop 1024 0 [] ?w1 =
        Inl (SignedOverflow,
              ?w1\<lparr>stdin := drop (2147482624 - 0) (stdin ?w1),
                heap := drop (2097150 - 0 div 1024) (heap ?w1)\<rparr>)"
    using nf assms(2) by (intro read_loop_overflow) simp_all
  moreover have "drop 2097150 (tl (heap w)) = drop 2097151 (heap w)"
  proof -
    have "drop k (tl (heap w)) = drop (Suc k) (heap w)" for k
      by (simp add: drop_Suc)
    then have "drop 2097150 (tl (heap w)) = drop (Suc 2097150) (heap w)" .
    then show ?thesis by simp
  qed
  ultimately show ?thesis
    using assms(1) by (simp add: lsh_read_line_def malloc_granted LSH_RL_BUFSIZE_def)
qed

subsection \<open>The dispatcher\<close>

lemma execute_loop_0:
  "execute_loop 0 cmd args w =
     (if cmd = ''cd'' then lsh_cd args w
      else if cmd = ''help'' then lsh_help args w
      else if cmd = ''exit'' then lsh_exit args w
      else lsh_launch args w)"
  by (subst execute_loop.simps, subst execute_loop.simps, subst execute_loop.simps,
      subst execute_loop.simps)
     (simp add: lsh_num_builtins_def builtin_str_def builtin_func_def)

lemma lsh_launch_status: "lsh_launch args w = Inr (s, w') \<Longrightarrow> s = 1"
  by (auto simp: lsh_launch_def split: prod.splits fork_ret.splits list.splits option.splits sum.splits)

lemma lsh_cd_status: "lsh_cd args w = Inr (s, w') \<Longrightarrow> s = 1"
  by (induction args w rule: lsh_cd.induct) (auto split: prod.splits option.splits)

lemma lsh_help_status: "lsh_help args w = Inr (s, w') \<Longrightarrow> s = 1"
  by (auto simp: lsh_help_def Let_def)

lemma lsh_execute_exit: "lsh_execute (Some ''exit'' # rest) w = Inr (0, w)"
  by (simp add: lsh_execute_def execute_loop_0 lsh_exit_def)

lemma lsh_execute_status:
  assumes "lsh_execute args w = Inr (s, w')"
  shows "(s = 0 \<and> (\<exists>rest. args = Some ''exit'' # rest) \<and> w' = w) \<or>
         (s = 1 \<and> (\<forall>rest. args \<noteq> Some ''exit'' # rest))"
proof (cases args)
  case Nil
  with assms show ?thesis by (simp add: lsh_execute_def)
next
  case (Cons a rest)
  show ?thesis
  proof (cases a)
    case None
    with Cons assms show ?thesis by (auto simp: lsh_execute_def)
  next
    case (Some cmd)
    with Cons assms show ?thesis
      by (auto simp: lsh_execute_def execute_loop_0 lsh_exit_def split: if_splits
               dest: lsh_cd_status lsh_help_status lsh_launch_status)
  qed
qed

subsection \<open>The prompt, blank lines and the main loop\<close>

lemma prompt_loop_granted:
  "never_fails w \<Longrightarrow>
   \<exists>k. prompt_loop True nbytes w = Inr (Some (cwd w), w\<lparr>heap := drop k (heap w)\<rparr>)"
proof (induction "Suc (length (cwd w)) - nbytes" arbitrary: nbytes w rule: less_induct)
  case less
  show ?case
  proof (cases "length (cwd w) < nbytes")
    case True
    then have "prompt_loop True nbytes w = Inr (Some (cwd w), w\<lparr>heap := drop 0 (heap w)\<rparr>)"
      by (subst prompt_loop.simps) (simp add: getcwd_def)
    then show ?thesis by blast
  next
    case False
    let ?w1 = "w\<lparr>heap := tl (heap w)\<rparr>"
    have nf: "never_fails ?w1"
      using less(2) by (rule never_fails_tl) simp
    have "Suc (length (cwd ?w1)) - (nbytes + LSH_CURRDIR_BUFSIZE) < Suc (length (cwd w)) - nbytes"
      using False by (simp add: LSH_CURRDIR_BUFSIZE_def)
    from less(1) [OF this nf] obtain k where
      k: "prompt_loop True (nbytes + LSH_CURRDIR_BUFSIZE) ?w1 =
          Inr (Some (cwd ?w1), ?w1\<lparr>heap := drop k (heap ?w1)\<rparr>)"
      by blast
    have "prompt_loop True nbytes w = Inr (Some (cwd w), w\<lparr>heap := drop (Suc k) (heap w)\<rparr>)"
      using False k less(2)
      by (subst prompt_loop.simps) (simp add: getcwd_def realloc_granted drop_Suc)
    then show ?thesis by blast
  qed
qed

lemma lsh_shellprompt_granted:
  assumes "never_fails w"
  shows "\<exists>k. lsh_shellprompt w =
           Inr ((), w\<lparr>heap := drop k (heap w),
                      stdout := stdout w @ prompt_text (env_USER w) (Some (cwd w))\<rparr>)"
proof -
  let ?w1 = "w\<lparr>heap := tl (heap w)\<rparr>"
  have nf: "never_fails ?w1"
    using assms by (rule never_fails_tl) simp
  from prompt_loop_granted [OF nf, of LSH_CURRDIR_BUFSIZE] obtain k where
    "prompt_loop True LSH_CURRDIR_BUFSIZE ?w1 =
     Inr (Some (cwd ?w1), ?w1\<lparr>heap := drop k (heap ?w1)\<rparr>)"
    by blast
  then have "lsh_shellprompt w =
           Inr ((), w\<lparr>heap := drop (Suc k) (heap w),
                      stdout := stdout w @ prompt_text (env_USER w) (Some (cwd w))\<rparr>)"
    using assms by (simp add: lsh_shellprompt_def malloc_granted printf_def drop_Suc)
  then show ?thesis by blast
qed

lemma strtok_None: "strtok delim s = None \<longleftrightarrow> set s \<subseteq> set delim"
  by (auto simp: strtok_def Let_def dropWhile_eq_Nil_conv)

lemma split_loop_None:
  "position < bufsize \<Longrightarrow>
   split_loop None bufsize position tokens w = Inr ((bufsize, tokens @ [None]), w)"
  by (subst split_loop.simps) simp

lemma lsh_split_line_blank:
  assumes "set (c_str line) \<subseteq> set LSH_TOK_DELIM"
    and "fst (malloc (LSH_TOK_BUFSIZE * sizeof_ptr) w)"
  shows "lsh_split_line line w =
         Inr ((LSH_TOK_BUFSIZE, [None]), snd (malloc (LSH_TOK_BUFSIZE * sizeof_ptr) w))"
proof -
  from assms(1) have "strtok LSH_TOK_DELIM (c_str line) = None"
    by (simp add: strtok_None)
  with assms(2) show ?thesis
    by (cases "malloc (LSH_TOK_BUFSIZE * sizeof_ptr) w")
       (simp add: lsh_split_line_def split_loop_None LSH_TOK_BUFSIZE_def)
qed

lemma loop_body_eof:
  assumes "stdin w = []" and "never_fails w"
  shows "\<exists>k. loop_body w =
           Inr (1, w\<lparr>heap := drop k (heap w),
                     stdout := stdout w @ prompt_text (env_USER w) (Some (cwd w))\<rparr>)"
proof -
  from lsh_shellprompt_granted [OF assms(2)] obtain k where
    p: "lsh_shellprompt w = Inr ((), w\<lparr>heap := drop k (heap w),
          stdout := stdout w @ prompt_text (env_USER w) (Some (cwd w))\<rparr>)" (is "_ = Inr ((), ?w1)")
    by blast
  have nf1: "never_fails ?w1"
    using assms(2) by (rule never_fails_drop [where k = k]) simp
  have r: "lsh_read_line ?w1 = Inr ((1024, [NUL]), ?w1\<lparr>heap := tl (heap ?w1)\<rparr>)"
    using lsh_read_line_full [OF nf1] assms(1)
    by (auto simp: drop_Suc tl_drop intro!: world.equality)
  let ?w2 = "?w1\<lparr>heap := tl (heap ?w1)\<rparr>"
  have nf2: "never_fails ?w2"
    using nf1 by (rule never_fails_tl) simp
  have s: "lsh_split_line [NUL] ?w2 = Inr ((LSH_TOK_BUFSIZE, [None]), ?w2\<lparr>heap := tl (heap ?w2)\<rparr>)"
    using lsh_split_line_blank [of "[NUL]" ?w2] nf2
    by (simp add: c_str_def malloc_granted)
  have "loop_body w = Inr (1, w\<lparr>heap := drop (Suc (Suc k)) (heap w),
                     stdout := stdout w @ prompt_text (env_USER w) (Some (cwd w))\<rparr>)"
    using p r s by (simp add: loop_body_def lsh_execute_def drop_Suc tl_drop)
  then show ?thesis by blast
qed

lemma lsh_loop_eof:
  "stdin w = [] \<Longrightarrow> never_fails w \<Longrightarrow>
   \<exists>k. lsh_loop n w =
     Running (w\<lparr>heap := drop k (heap w),
                stdout := stdout w @ concat (replicate n (prompt_text (env_USER w) (Some (cwd w))))\<rparr>)"
proof (induction n arbitrary: w)
  case 0
  have "lsh_loop 0 w =
        Running (w\<lparr>heap := drop 0 (heap w),
                   stdout := stdout w @ concat (replicate 0 (prompt_text (env_USER w) (Some (cwd w))))\<rparr>)"
    by simp
  then show ?case by blast
next
  case (Suc n)
  let ?P = "prompt_text (env_USER w) (Some (cwd w))"
  from loop_body_eof [OF Suc(2,3)] obtain k where
    b: "loop_body w = Inr (1, w\<lparr>heap := drop k (heap w), stdout := stdout w @ ?P\<rparr>)"
      (is "_ = Inr (1, ?w1)")
    by blast
  have "never_fails ?w1"
    using Suc(3) by (rule never_fails_drop [where k = k]) simp
  moreover have "stdin ?w1 = []"
    using Suc(2) by simp
  ultimately obtain j where
    "lsh_loop n ?w1 =
     Running (?w1\<lparr>heap := drop j (heap ?w1),
                  stdout := stdout ?w1 @
                    concat (replicate n (prompt_text (env_USER ?w1) (Some (cwd ?w1))))\<rparr>)"
    using Suc(1) [of ?w1] by blast
  with b have "lsh_loop (Suc n) w =
     Running (w\<lparr>heap := drop (j + k) (heap w),
                stdout := stdout w @ concat (replicate (Suc n) ?P)\<rparr>)"
    by simp
  then show ?case by blast
qed

lemma loop_body_zero:
  assumes "loop_body w = Inr (0, w')"
  shows "\<exists>w1 cap line w2 tcap rest.
           lsh_shellprompt w = Inr ((), w1) \<and> lsh_read_line w1 = Inr ((cap, line), w2) \<and>
           lsh_split_line line w2 = Inr ((tcap, Some ''exit'' # rest), w')"
proof -
  from assms obtain w1 cap line w2 tcap args w3 where
    "lsh_shellprompt w = Inr ((), w1)" "lsh_read_line w1 = Inr ((cap, line), w2)"
    "lsh_split_line line w2 = Inr ((tcap, args), w3)" "lsh_execute args w3 = Inr (0, w')"
    by (auto simp: loop_body_def split: sum.splits prod.splits)
  moreover from lsh_execute_status [OF this(4)] obtain rest where
    "args = Some ''exit'' # rest" "w' = w3" by auto
  ultimately show ?thesis by blast
qed

lemma lsh_loop_done:
  "lsh_loop n w = Done (Inr (u, w')) \<Longrightarrow>
   \<exists>k<n. \<exists>w0. lsh_loop k w = Running w0 \<and> loop_body w0 = Inr (0, w')"
proof (induction n arbitrary: w)
  case 0
  then show ?case by simp
next
  case (Suc n)
  show ?case
  proof (cases "loop_body w")
    case (Inl s)
    with Suc(2) show ?thesis by simp
  next
    case (Inr r)
    obtain status w1 where r: "r = (status, w1)" by (cases r)
    show ?thesis
    proof (cases "status = 0")
      case True
      with Inr r Suc(2) have "loop_body w = Inr (0, w')" by simp
      moreover have "lsh_loop 0 w = Running w" by simp
      ultimately show ?thesis by blast
    next
      case False
      with Inr r Suc(2) have "lsh_loop n w1 = Done (Inr (u, w'))" by simp
      from Suc(1) [OF this] obtain k w0 where
        k: "k < n" "lsh_loop k w1 = Running w0" "loop_body w0 = Inr (0, w')"
        by blast
      from k(2) Inr r False have "lsh_loop (Suc k) w = Running w0" by simp
      with k(1,3) have "Suc k < Suc n \<and> lsh_loop (Suc k) w = Running w0 \<and>
          loop_body w0 = Inr (0, w')"
        by simp
      then show ?thesis by blast
    qed
  qed
qed

lemma lsh_loop_reaches_done:
  "lsh_loop k w = Running w0 \<Longrightarrow> loop_body w0 = Inr (0, w') \<Longrightarrow> k < n \<Longrightarrow>
   lsh_loop n w = Done (Inr ((), w'))"
proof (induction k arbitrary: w n)
  case 0
  then obtain n' where "n = Suc n'" by (cases n) auto
  with 0 show ?case by simp
next
  case (Suc k)
  from Suc(4) obtain n' where n: "n = Suc n'" "k < n'" by (cases n) auto
  from Suc(2) obtain status w1 where
    b: "loop_body w = Inr (status, w1)" "status \<noteq> 0" "lsh_loop k w1 = Running w0"
    by (auto split: sum.splits if_splits)
  from Suc(1) [OF b(3) Suc(3) n(2)] b(1,2) n(1) show ?case by simp
qed

lemma lsh_loop_returns:
  "lsh_loop n w = Done (Inr (u, w')) \<Longrightarrow>
   \<exists>k<n. \<exists>w0 w1 cap line w2 tcap rest.
     lsh_loop k w = Running w0 \<and>
     lsh_shellprompt w0 = Inr ((), w1) \<and> lsh_read_line w1 = Inr ((cap, line), w2) \<and>
     lsh_split_line line w2 = Inr ((tcap, Some ''exit'' # rest), w')"
proof -
  assume "lsh_loop n w = Done (Inr (u, w'))"
  from lsh_loop_done [OF this] obtain k w0 where
    k: "k < n" "lsh_loop k w = Running w0" "loop_body w0 = Inr (0, w')"
    by blast
  from loop_body_zero [OF k(3)] k(1,2) show ?thesis by blast
qed

subsection \<open>A session that ends with \<^verbatim>\<open>exit\<close>\<close>

lemma never_fails_quiet: "never_fails (quiet_world\<lparr>stdin := s, stdout := out\<rparr>)"
  by (simp add: never_fails_def quiet_world_def)

lemma prompt_quiet:
  "lsh_shellprompt (quiet_world\<lparr>stdin := s\<rparr>) =
   Inr ((), quiet_world\<lparr>stdin := s, stdout := ''user@/home/user/projects> ''\<rparr>)"
  by (simp add: lsh_shellprompt_def malloc_def realloc_def prompt_loop.simps getcwd_def
        quiet_world_def LSH_CURRDIR_BUFSIZE_def printf_def prompt_text_def)

lemma read_exit_session:
  "lsh_read_line (quiet_world\<lparr>stdin := ''exit now'' @ [NL] @ ''ls'', stdout := out\<rparr>) =
   Inr ((1024, ''exit now'' @ [NUL]), quiet_world\<lparr>stdin := ''ls'', stdout := out\<rparr>)"
  using lsh_read_line_full [of "quiet_world\<lparr>stdin := ''exit now'' @ [NL] @ ''ls'', stdout := out\<rparr>"]
    never_fails_quiet [where s = "''exit now'' @ [NL] @ ''ls''" and out = out]
  by (simp add: NL_def quiet_world_def)

lemma split_exit_session:
  "lsh_split_line (''exit now'' @ [NUL]) (quiet_world\<lparr>stdin := s, stdout := out\<rparr>) =
   Inr ((64, [Some ''exit'', Some ''now'', None]), quiet_world\<lparr>stdin := s, stdout := out\<rparr>)"
  by (simp add: lsh_split_line_def malloc_def quiet_world_def split_loop.simps strtok_def
        c_str_def NUL_def LSH_TOK_DELIM_def LSH_TOK_BUFSIZE_def Let_def)

lemma loop_body_step:
  "lsh_shellprompt w = Inr ((), w1) \<Longrightarrow> lsh_read_line w1 = Inr ((cap, line), w2) \<Longrightarrow>
   lsh_split_line line w2 = Inr ((tcap, args), w3) \<Longrightarrow> loop_body w = lsh_execute args w3"
  by (simp add: loop_body_def)

lemma loop_body_exit_session:
  "loop_body exit_session =
   Inr (0, quiet_world\<lparr>stdin := ''ls'', stdout := ''user@/home/user/projects> ''\<rparr>)"
proof -
  have "lsh_shellprompt exit_session =
        Inr ((), quiet_world\<lparr>stdin := ''exit now'' @ [NL] @ ''ls'',
                              stdout := ''user@/home/user/projects> ''\<rparr>)"
    unfolding exit_session_def by (rule prompt_quiet)
  from loop_body_step [OF this read_exit_session split_exit_session]
  show ?thesis by (simp only: lsh_execute_exit)
qed

lemma loop_exit_session:
  "lsh_loop (Suc 0) exit_session =
   Done (Inr ((), quiet_world\<lparr>stdin := ''ls'', stdout := ''user@/home/user/projects> ''\<rparr>))"
  by (simp add: loop_body_exit_session)

lemma c_str_terminated: "NUL \<notin> set line \<Longrightarrow> c_str (line @ [NUL]) = line"
  by (simp add: c_str_def takeWhile_append)

subsection \<open>The builtins on the quiet world\<close>

lemma help_quiet:
  "lsh_help [Some ''help'', None] quiet_world =
   Inr (1, quiet_world\<lparr>stdout :=
     ''Stephen Brennan'' @ [CHR 0x27] @ ''s LSH'' @ [NL] @
     ''Type program names and arguments, and hit enter.'' @ [NL] @
     ''The following are built in:'' @ [NL] @
     [CHR 0x09] @ ''cd'' @ [NL] @ [CHR 0x09] @ ''help'' @ [NL] @ [CHR 0x09] @ ''exit'' @ [NL] @
     ''Use the man command for information on other programs.'' @ [NL]\<rparr>)"
  by (simp add: lsh_help_def builtin_str_def printf_def quiet_world_def)

lemma cd_quiet:
  "lsh_cd [Some ''cd'', None] quiet_world = Inr (1, quiet_world\<lparr>stderr := cd_usage\<rparr>)"
  by (simp add: eprintf_def quiet_world_def)

lemma launch_quiet:
  "lsh_launch [Some ''ls'', None] quiet_world =
   Inr (1, quiet_world\<lparr>stderr := ''lsh: Resource temporarily unavailable'' @ [NL]\<rparr>)"
  by (simp add: lsh_launch_def fork_def perror_def eprintf_def quiet_world_def)

lemma execute_help_quiet:
  "lsh_execute [Some ''help'', None] quiet_world = lsh_help [Some ''help'', None] quiet_world"
  by (simp add: lsh_execute_def execute_loop_0)

subsection \<open>The wait loop and the launcher\<close>

lemma wait_loop_blocked: "children w p = [] \<Longrightarrow> wait_loop p w = Inl (BlockedForever, w)"
  by (subst wait_loop.simps) (simp add: waitpid_def)

lemma wait_loop_failed:
  "children w p = WaitFailed e # es \<Longrightarrow>
   wait_loop p w =
   Inl (Exit EXIT_FAILURE, perror ''lsh'' e (w\<lparr>children := (children w)(p := es)\<rparr>))"
  by (subst wait_loop.simps) (simp add: waitpid_def)

lemma wait_loop_exited:
  "children w p = WExited c # es \<Longrightarrow>
   wait_loop p w = Inr ((), w\<lparr>children := (children w)(p := es)\<rparr>)"
  by (subst wait_loop.simps) (simp add: waitpid_def)

lemma wait_loop_signaled:
  "children w p = WSignaled c # es \<Longrightarrow>
   wait_loop p w = Inr ((), w\<lparr>children := (children w)(p := es)\<rparr>)"
  by (subst wait_loop.simps) (simp add: waitpid_def)

lemma wait_loop_stopped_step:
  "children w p = WStopped # es \<Longrightarrow>
   wait_loop p w = wait_loop p (w\<lparr>children := (children w)(p := es)\<rparr>)"
  by (subst wait_loop.simps) (simp add: waitpid_def)

lemma wait_loop_stopped:
  "children w p = replicate k WStopped @ es \<Longrightarrow>
   wait_loop p w = wait_loop p (w\<lparr>children := (children w)(p := es)\<rparr>)"
proof (induction k arbitrary: w)
  case 0
  then have "(children w)(p := es) = children w" by auto
  then show ?case by simp
next
  case (Suc k)
  let ?w1 = "w\<lparr>children := (children w)(p := replicate k WStopped @ es)\<rparr>"
  from Suc(2) have "wait_loop p w = wait_loop p ?w1"
    by (intro wait_loop_stopped_step) simp
  also have "\<dots> = wait_loop p (?w1\<lparr>children := (children ?w1)(p := es)\<rparr>)"
    by (rule Suc(1)) simp
  also have "?w1\<lparr>children := (children ?w1)(p := es)\<rparr> = w\<lparr>children := (children w)(p := es)\<rparr>"
    by simp
  finally show ?case .
qed

lemma wait_loop_returns:
  "wait_loop p w = Inr (u, w') \<Longrightarrow>
   \<exists>k e es. children w p = replicate k WStopped @ e # es \<and>
            ((\<exists>c. e = WExited c) \<or> (\<exists>c. e = WSignaled c)) \<and>
            w' = w\<lparr>children := (children w)(p := es)\<rparr>"
proof (induction "children w p" arbitrary: w)
  case Nil
  from Nil(1) [symmetric] Nil(2) show ?case
    by (simp add: wait_loop_blocked)
next
  case (Cons e es)
  note ch = Cons(2) [symmetric]
  show ?case
  proof (cases e)
    case (WaitFailed err)
    with ch Cons(3) show ?thesis by (simp add: wait_loop_failed)
  next
    case WStopped
    let ?w1 = "w\<lparr>children := (children w)(p := es)\<rparr>"
    from ch WStopped Cons(3) have "wait_loop p ?w1 = Inr (u, w')"
      by (simp add: wait_loop_stopped_step)
    from Cons(1) [OF _ this] obtain k e' es' where
      "children ?w1 p = replicate k WStopped @ e' # es'"
      "(\<exists>c. e' = WExited c) \<or> (\<exists>c. e' = WSignaled c)"
      "w' = ?w1\<lparr>children := (children ?w1)(p := es')\<rparr>"
      by auto
    with ch WStopped have
      "children w p = replicate (Suc k) WStopped @ e' # es'"
      "(\<exists>c. e' = WExited c) \<or> (\<exists>c. e' = WSignaled c)"
      "w' = w\<lparr>children := (children w)(p := es')\<rparr>"
      by simp_all
    then show ?thesis by blast
  next
    case (WExited c)
    with ch Cons(3) have "w' = w\<lparr>children := (children w)(p := es)\<rparr>"
      by (simp add: wait_loop_exited)
    with ch WExited have "children w p = replicate 0 WStopped @ e # es \<and>
        ((\<exists>c. e = WExited c) \<or> (\<exists>c. e = WSignaled c)) \<and>
        w' = w\<lparr>children := (children w)(p := es)\<rparr>"
      by simp
    then show ?thesis by blast
  next
    case (WSignaled c)
    with ch Cons(3) have "w' = w\<lparr>children := (children w)(p := es)\<rparr>"
      by (simp add: wait_loop_signaled)
    with ch WSignaled have "children w p = replicate 0 WStopped @ e # es \<and>
        ((\<exists>c. e = WExited c) \<or> (\<exists>c. e = WSignaled c)) \<and>
        w' = w\<lparr>children := (children w)(p := es)\<rparr>"
      by simp
    then show ?thesis by blast
  qed
qed

lemma lsh_launch_parent:
  "forks w = ForkParent p # fs \<Longrightarrow>
   lsh_launch args w =
   (case wait_loop p (w\<lparr>forks := fs\<rparr>) of Inl s \<Rightarrow> Inl s | Inr (u, w2) \<Rightarrow> Inr (1, w2))"
  by (simp add: lsh_launch_def fork_def)

lemma lsh_launch_child:
  "forks w = ForkChild # fs \<Longrightarrow>
   lsh_launch (Some file # rest) w =
   (case execvp_os w file (Some file # rest) of
      None \<Rightarrow> Inl (ImageReplaced file (Some file # rest), w\<lparr>forks := fs\<rparr>)
    | Some e \<Rightarrow> Inl (Exit EXIT_FAILURE, perror ''lsh'' e (w\<lparr>forks := fs\<rparr>)))"
  by (simp add: lsh_launch_def fork_def)

lemma lsh_execute_launch:
  "file \<notin> set builtin_str \<Longrightarrow>
   lsh_execute (Some file # rest) w = lsh_launch (Some file # rest) w"
  by (auto simp: lsh_execute_def execute_loop_0 builtin_str_def)

subsection \<open>A session that launches a missing program\<close>

lemma lsh_shellprompt_heap_empty:
  assumes "heap w = []"
  shows "lsh_shellprompt w = Inr ((), printf (prompt_text (env_USER w) (Some (cwd w))) w)"
proof -
  from assms have "never_fails w"
    by (simp add: never_fails_def)
  from lsh_shellprompt_granted [OF this] obtain k where
    "lsh_shellprompt w =
       Inr ((), w\<lparr>heap := drop k (heap w),
                  stdout := stdout w @ prompt_text (env_USER w) (Some (cwd w))\<rparr>)"
    by blast
  moreover have "w\<lparr>heap := drop k (heap w),
                  stdout := stdout w @ prompt_text (env_USER w) (Some (cwd w))\<rparr> =
                 printf (prompt_text (env_USER w) (Some (cwd w))) w"
    using assms by (auto simp: printf_def intro!: world.equality)
  ultimately show ?thesis by simp
qed

lemma lsh_read_line_heap_empty:
  assumes "heap w = []" and "stdin w = line @ NL # behind" and "NL \<notin> set line"
    and "length line < 1024"
  shows "lsh_read_line w = Inr ((1024, line @ [NUL]), w\<lparr>stdin := behind\<rparr>)"
proof -
  from assms(1) have nf: "never_fails w"
    by (simp add: never_fails_def)
  have t: "takeWhile (\<lambda>c. c \<noteq> NL) (stdin w) = line"
    using assms(2,3) by (simp add: takeWhile_append)
  from lsh_read_line_full [OF nf] assms show ?thesis
    unfolding t by (auto intro!: world.equality)
qed

lemma split_nosuch:
  "heap w = [] \<Longrightarrow>
   lsh_split_line (''nosuch -x'' @ [NUL]) w = Inr ((64, [Some ''nosuch'', Some ''-x'', None]), w)"
  by (simp add: lsh_split_line_def malloc_def split_loop.simps strtok_def
        c_str_def NUL_def LSH_TOK_DELIM_def LSH_TOK_BUFSIZE_def Let_def)

lemma loop_body_launch_session:
  "loop_body (launch_session fk ch) =
   lsh_execute [Some ''nosuch'', Some ''-x'', None]
     (quiet_world\<lparr>stdout := ''user@/home/user/projects> '', forks := fk, children := ch\<rparr>)"
proof -
  let ?w1 = "printf (prompt_text (env_USER (launch_session fk ch)) (Some (cwd (launch_session fk ch))))
               (launch_session fk ch)"
  have p: "lsh_shellprompt (launch_session fk ch) = Inr ((), ?w1)"
    by (rule lsh_shellprompt_heap_empty) (simp add: launch_session_def quiet_world_def)
  have r: "lsh_read_line ?w1 = Inr ((1024, ''nosuch -x'' @ [NUL]), ?w1\<lparr>stdin := []\<rparr>)"
    by (rule lsh_read_line_heap_empty)
       (simp_all add: launch_session_def quiet_world_def printf_def NL_def)
  have s: "lsh_split_line (''nosuch -x'' @ [NUL]) (?w1\<lparr>stdin := []\<rparr>) =
           Inr ((64, [Some ''nosuch'', Some ''-x'', None]), ?w1\<lparr>stdin := []\<rparr>)"
    by (rule split_nosuch) (simp add: launch_session_def quiet_world_def printf_def)
  have "?w1\<lparr>stdin := []\<rparr> =
        quiet_world\<lparr>stdout := ''user@/home/user/projects> '', forks := fk, children := ch\<rparr>"
    by (simp add: launch_session_def quiet_world_def printf_def prompt_text_def)
  with loop_body_step [OF p r s] show ?thesis by simp
qed

subsection \<open>The tokenizer\<close>

lemma strtok_shorter: "strtok delim s = Some (t, r) \<Longrightarrow> length r < length s"
proof -
  assume a: "strtok delim s = Some (t, r)"
  define s1 where "s1 = dropWhile (\<lambda>c. c \<in> set delim) s"
  from a have ne: "s1 \<noteq> []" and r: "r = drop 1 (dropWhile (\<lambda>c. c \<notin> set delim) s1)"
    by (auto simp: strtok_def s1_def Let_def split: if_splits)
  from ne have "hd s1 \<notin> set delim"
    unfolding s1_def by (rule hd_dropWhile)
  with ne have "takeWhile (\<lambda>c. c \<notin> set delim) s1 \<noteq> []"
    by (cases s1) auto
  then have "length (dropWhile (\<lambda>c. c \<notin> set delim) s1) < length s1"
    by (metis length_greater_0_conv length_append takeWhile_dropWhile_id less_add_same_cancel2)
  moreover have "length s1 \<le> length s"
    unfolding s1_def by (rule length_dropWhile_le)
  ultimately show ?thesis
    by (simp add: r)
qed

lemma pieces_ne: "pieces delim s \<noteq> []"
  by (induction s) auto

lemma pieces_clean: "f \<in> set (pieces delim s) \<Longrightarrow> c \<in> set f \<Longrightarrow> c \<notin> set delim"
proof (induction s arbitrary: f)
  case Nil
  then show ?case by simp
next
  case (Cons a s)
  show ?case
  proof (cases "a \<in> set delim")
    case True
    with Cons show ?thesis by auto
  next
    case False
    with Cons.prems have "f = a # hd (pieces delim s) \<or> f \<in> set (tl (pieces delim s))"
      by simp
    then show ?thesis
    proof
      assume "f = a # hd (pieces delim s)"
      with Cons.prems(2) have "c = a \<or> c \<in> set (hd (pieces delim s))" by auto
      moreover have "hd (pieces delim s) \<in> set (pieces delim s)"
        by (simp add: pieces_ne)
      ultimately show ?thesis
        using False Cons.IH by blast
    next
      assume "f \<in> set (tl (pieces delim s))"
      then have "f \<in> set (pieces delim s)"
        by (rule list.set_sel(2) [OF pieces_ne])
      with Cons.IH Cons.prems(2) show ?thesis by blast
    qed
  qed
qed

lemma concat_pieces: "concat (pieces delim s) = filter (\<lambda>c. c \<notin> set delim) s"
proof (induction s)
  case Nil
  show ?case by simp
next
  case (Cons a s)
  have "concat (pieces delim s) = hd (pieces delim s) @ concat (tl (pieces delim s))"
    using pieces_ne [of delim s] by (cases "pieces delim s") auto
  with Cons show ?case by simp
qed

lemma concat_nonempty: "concat (filter (\<lambda>t. t \<noteq> []) xs) = concat xs"
  by (induction xs) auto

lemma words_spec_delims:
  "\<forall>c\<in>set ds. c \<in> set delim \<Longrightarrow> words_spec delim (ds @ x) = words_spec delim x"
  by (induction ds) (auto simp: words_spec_def)

lemma pieces_token:
  "\<forall>c\<in>set t. c \<notin> set delim \<Longrightarrow>
   pieces delim (t @ x) = (t @ hd (pieces delim x)) # tl (pieces delim x)"
  by (induction t) (auto simp: pieces_ne)

lemma words_spec_strtok_None: "strtok delim s = None \<Longrightarrow> words_spec delim s = []"
proof -
  assume "strtok delim s = None"
  then have "\<forall>c\<in>set s. c \<in> set delim"
    by (auto simp: strtok_None)
  from words_spec_delims [OF this, of "[]"] show ?thesis
    by (simp add: words_spec_def)
qed

lemma words_spec_strtok_Some:
  assumes "strtok delim s = Some (t, r)"
  shows "words_spec delim s = t # words_spec delim r"
proof -
  define s1 where "s1 = dropWhile (\<lambda>c. c \<in> set delim) s"
  define rest where "rest = dropWhile (\<lambda>c. c \<notin> set delim) s1"
  from assms have ne: "s1 \<noteq> []" and t: "t = takeWhile (\<lambda>c. c \<notin> set delim) s1"
    and r: "r = drop 1 rest"
    by (auto simp: strtok_def s1_def rest_def Let_def split: if_splits)
  from ne have "hd s1 \<notin> set delim"
    unfolding s1_def by (rule hd_dropWhile)
  with ne have tne: "t \<noteq> []"
    unfolding t by (cases s1) auto
  have clean: "\<forall>c\<in>set t. c \<notin> set delim"
    unfolding t by (auto dest: set_takeWhileD)
  have "s = takeWhile (\<lambda>c. c \<in> set delim) s @ s1"
    by (simp add: s1_def)
  moreover have "\<forall>c\<in>set (takeWhile (\<lambda>c. c \<in> set delim) s). c \<in> set delim"
    by (auto dest: set_takeWhileD)
  ultimately have w1: "words_spec delim s = words_spec delim s1"
    by (metis words_spec_delims)
  have s1: "s1 = t @ rest"
    by (simp add: t rest_def)
  show ?thesis
  proof (cases rest)
    case Nil
    with r have "r = []" by simp
    moreover from Nil s1 pieces_token [OF clean, of "[]"] have "pieces delim s1 = [t]"
      by simp
    ultimately have "words_spec delim s1 = [t]" "words_spec delim r = []"
      using tne by (simp_all add: words_spec_def)
    then show ?thesis
      by (simp add: w1)
  next
    case (Cons d r')
    with r have rr: "r = r'" by simp
    have "rest \<noteq> []" using Cons by simp
    then have "\<not> hd rest \<notin> set delim"
      unfolding rest_def by (rule hd_dropWhile)
    with Cons have d: "d \<in> set delim" by simp
    from pieces_token [OF clean, of "d # r'"] d have "pieces delim (t @ d # r') = t # pieces delim r'"
      by simp
    then have "words_spec delim s1 = t # words_spec delim r"
      using tne s1 Cons rr by (simp add: words_spec_def)
    then show ?thesis
      by (simp add: w1)
  qed
qed

lemma words_spec_nonempty: "t \<in> set (words_spec delim s) \<Longrightarrow> t \<noteq> []"
  by (simp add: words_spec_def)

lemma words_spec_clean: "t \<in> set (words_spec delim s) \<Longrightarrow> c \<in> set t \<Longrightarrow> c \<notin> set delim"
  by (auto simp: words_spec_def dest: pieces_clean)

lemma concat_words_spec: "concat (words_spec delim s) = filter (\<lambda>c. c \<notin> set delim) s"
  by (simp add: words_spec_def concat_nonempty concat_pieces)

lemma split_loop_store:
  "position + 1 < bufsize \<Longrightarrow>
   split_loop (Some (t, r)) bufsize position tokens w =
   split_loop (strtok LSH_TOK_DELIM r) bufsize (position + 1) (tokens @ [Some t]) w"
  by (subst split_loop.simps) simp

lemma split_loop_grow:
  "position + 1 = bufsize \<Longrightarrow> bufsize + LSH_TOK_BUFSIZE \<le> INT_MAX \<Longrightarrow> never_fails w \<Longrightarrow>
   split_loop (Some (t, r)) bufsize position tokens w =
   split_loop (strtok LSH_TOK_DELIM r) (bufsize + LSH_TOK_BUFSIZE) (position + 1)
     (tokens @ [Some t]) (w\<lparr>heap := tl (heap w)\<rparr>)"
  by (subst split_loop.simps) (simp add: realloc_granted)

lemma split_loop_tokens:
  "split_loop (strtok LSH_TOK_DELIM s) bufsize position tokens w = Inr ((cap, args), w') \<Longrightarrow>
   args = tokens @ map Some (words_spec LSH_TOK_DELIM s) @ [None]"
proof (induction "length s" arbitrary: s bufsize position tokens w rule: less_induct)
  case less
  show ?case
  proof (cases "strtok LSH_TOK_DELIM s")
    case None
    with less.prems show ?thesis
      by (subst (asm) split_loop.simps) (auto simp: words_spec_strtok_None split: if_splits)
  next
    case (Some tr)
    obtain t r where tr: "tr = (t, r)" by (cases tr)
    from Some tr have len: "length r < length s"
      by (auto dest: strtok_shorter)
    from Some tr have ws: "words_spec LSH_TOK_DELIM s = t # words_spec LSH_TOK_DELIM r"
      by (auto dest: words_spec_strtok_Some)
    from less.prems Some tr obtain b' w1 where
      "split_loop (strtok LSH_TOK_DELIM r) b' (position + 1) (tokens @ [Some t]) w1 =
       Inr ((cap, args), w')"
      by (subst (asm) split_loop.simps) (auto split: if_splits prod.splits bool.splits)
    from less.hyps [OF len this] ws show ?thesis by simp
  qed
qed

lemma split_loop_granted:
  assumes "never_fails w"
    and "bufsize = 64 * (position div 64 + 1)"
    and "position + length (words_spec LSH_TOK_DELIM s) < 2147483584"
  shows "split_loop (strtok LSH_TOK_DELIM s) bufsize position tokens w =
         Inr ((64 * ((position + length (words_spec LSH_TOK_DELIM s)) div 64 + 1),
               tokens @ map Some (words_spec LSH_TOK_DELIM s) @ [None]),
              w\<lparr>heap := drop ((position + length (words_spec LSH_TOK_DELIM s)) div 64
                              - position div 64) (heap w)\<rparr>)"
  using assms
proof (induction "length s" arbitrary: s bufsize position tokens w rule: less_induct)
  case less
  from less.prems(2) have lt: "position < bufsize" by simp
  show ?case
  proof (cases "strtok LSH_TOK_DELIM s")
    case None
    with lt less.prems(2) show ?thesis
      by (simp add: split_loop_None words_spec_strtok_None)
  next
    case (Some tr)
    obtain t r where tr: "tr = (t, r)" by (cases tr)
    from Some tr have len: "length r < length s"
      by (auto dest: strtok_shorter)
    from Some tr have ws: "words_spec LSH_TOK_DELIM s = t # words_spec LSH_TOK_DELIM r"
      by (auto dest: words_spec_strtok_Some)
    let ?n = "length (words_spec LSH_TOK_DELIM r)"
    from less.prems(3) ws have bound: "position + 1 + ?n < 2147483584" by simp
    show ?thesis
    proof (cases "position + 1 < bufsize")
      case True
      have div: "(position + 1) div 64 = position div 64"
        using True less.prems(2) by simp
      have "split_loop (strtok LSH_TOK_DELIM r) bufsize (position + 1) (tokens @ [Some t]) w =
            Inr ((64 * ((position + 1 + ?n) div 64 + 1),
                  (tokens @ [Some t]) @ map Some (words_spec LSH_TOK_DELIM r) @ [None]),
                 w\<lparr>heap := drop ((position + 1 + ?n) div 64 - (position + 1) div 64) (heap w)\<rparr>)"
        using less.prems(1) less.prems(2) bound div
        by (intro less.hyps [OF len]) simp_all
      with Some tr True ws div show ?thesis
        by (simp add: split_loop_store)
    next
      case False
      let ?w1 = "w\<lparr>heap := tl (heap w)\<rparr>"
      from False lt have eq: "position + 1 = bufsize" by simp
      have div: "(position + 1) div 64 = position div 64 + 1"
        using eq less.prems(2) by simp
      have nf: "never_fails ?w1"
        using less.prems(1) by (rule never_fails_tl) simp
      have le: "bufsize + LSH_TOK_BUFSIZE \<le> INT_MAX"
        using eq bound by (simp add: LSH_TOK_BUFSIZE_def INT_MAX_def)
      have mono: "position div 64 + 1 \<le> (position + 1 + ?n) div 64"
        using div div_le_mono [of "position + 1" "position + 1 + ?n" 64] by simp
      have "split_loop (strtok LSH_TOK_DELIM r) (bufsize + 64) (position + 1) (tokens @ [Some t]) ?w1 =
            Inr ((64 * ((position + 1 + ?n) div 64 + 1),
                  (tokens @ [Some t]) @ map Some (words_spec LSH_TOK_DELIM r) @ [None]),
                 ?w1\<lparr>heap := drop ((position + 1 + ?n) div 64 - (position + 1) div 64) (heap ?w1)\<rparr>)"
        using nf less.prems(2) bound div
        by (intro less.hyps [OF len]) simp_all
      moreover have "drop ((position + 1 + ?n) div 64 - (position div 64 + 1)) (tl (heap w)) =
                     drop ((position + 1 + ?n) div 64 - position div 64) (heap w)"
      proof -
        have "drop k (tl (heap w)) = drop (Suc k) (heap w)" for k
          by (simp add: drop_Suc)
        then have "drop ((position + 1 + ?n) div 64 - (position div 64 + 1)) (tl (heap w)) =
                   drop (Suc ((position + 1 + ?n) div 64 - (position div 64 + 1))) (heap w)" .
        also have "Suc ((position + 1 + ?n) div 64 - (position div 64 + 1)) =
                   (position + 1 + ?n) div 64 - position div 64"
          using mono by arith
        finally show ?thesis .
      qed
      ultimately show ?thesis
        using Some tr eq [symmetric] le less.prems(1) ws div
        by (simp add: split_loop_grow LSH_TOK_BUFSIZE_def)
    qed
  qed
qed

lemma lsh_split_line_tokens:
  "lsh_split_line line w = Inr ((cap, args), w') \<Longrightarrow>
   args = map Some (words_spec LSH_TOK_DELIM (c_str line)) @ [None]"
  using split_loop_tokens [of "c_str line" _ _ "[]"]
  by (auto simp: lsh_split_line_def split: prod.splits bool.splits)

lemma lsh_split_line_granted:
  assumes "never_fails w"
    and "length (words_spec LSH_TOK_DELIM (c_str line)) < 2147483584"
  shows "lsh_split_line line w =
         Inr ((64 * (length (words_spec LSH_TOK_DELIM (c_str line)) div 64 + 1),
               map Some (words_spec LSH_TOK_DELIM (c_str line)) @ [None]),
              w\<lparr>heap := drop (Suc (length (words_spec LSH_TOK_DELIM (c_str line)) div 64))
                              (heap w)\<rparr>)"
proof -
  let ?w1 = "w\<lparr>heap := tl (heap w)\<rparr>"
  have nf: "never_fails ?w1"
    using assms(1) by (rule never_fails_tl) simp
  have "split_loop (strtok LSH_TOK_DELIM (c_str line)) 64 0 [] ?w1 =
        Inr ((64 * ((0 + length (words_spec LSH_TOK_DELIM (c_str line))) div 64 + 1),
              [] @ map Some (words_spec LSH_TOK_DELIM (c_str line)) @ [None]),
             ?w1\<lparr>heap := drop ((0 + length (words_spec LSH_TOK_DELIM (c_str line))) div 64
                              - 0 div 64) (heap ?w1)\<rparr>)"
    using nf assms(2) by (intro split_loop_granted) simp_all
  then show ?thesis
    using assms(1) by (simp add: lsh_split_line_def malloc_granted LSH_TOK_BUFSIZE_def drop_Suc)
qed

lemma words_echo:
  "words_spec LSH_TOK_DELIM (c_str (''echo  a   b'' @ [NUL])) = [''echo'', ''a'', ''b'']"
  by (simp add: words_spec_def c_str_def NUL_def LSH_TOK_DELIM_def)

subsection \<open>Refused requests to grow\<close>

lemma read_loop_realloc_refused:
  "stdin w = c # cs \<Longrightarrow> c \<noteq> NL \<Longrightarrow> position + 1 = bufsize \<Longrightarrow>
   bufsize + LSH_RL_BUFSIZE \<le> INT_MAX \<Longrightarrow> heap w = False # bs \<Longrightarrow>
   read_loop bufsize position buffer w =
   Inl (Exit EXIT_FAILURE,
        eprintf (''lsh: allocation error'' @ [NL]) (w\<lparr>stdin := cs, heap := bs\<rparr>))"
  by (subst read_loop.simps) (simp add: getchar_Cons realloc_def)

lemma split_loop_realloc_refused:
  "position + 1 = bufsize \<Longrightarrow> bufsize + LSH_TOK_BUFSIZE \<le> INT_MAX \<Longrightarrow>
   heap w = False # bs \<Longrightarrow>
   split_loop (Some (t, r)) bufsize position tokens w =
   Inl (Exit EXIT_FAILURE, eprintf (''lsh: allocation error'' @ [NL]) (w\<lparr>heap := bs\<rparr>))"
  by (subst split_loop.simps) (simp add: realloc_def)

lemma prompt_loop_realloc_refused:
  "nbytes \<le> length (cwd w) \<Longrightarrow> heap w = False # bs \<Longrightarrow>
   prompt_loop True nbytes w =
   Inl (Exit EXIT_FAILURE, eprintf (''lsh: allocation error'' @ [NL]) (w\<lparr>heap := bs\<rparr>))"
  by (subst prompt_loop.simps) (simp add: getcwd_def realloc_def)

subsection \<open>The prompt after a refused \<^verbatim>\<open>malloc\<close>\<close>

lemma lsh_shellprompt_refused:
  assumes "never_fails (w\<lparr>heap := bs\<rparr>)"
  shows "\<exists>k. lsh_shellprompt (w\<lparr>heap := False # bs\<rparr>) =
           Inr ((), w\<lparr>heap := drop k bs,
                      stdout := stdout w @
                        prompt_text (env_USER w)
                          (if getcwd_null w LSH_CURRDIR_BUFSIZE (cwd w) then None
                           else Some (cwd w))\<rparr>)"
proof (cases "getcwd_null w LSH_CURRDIR_BUFSIZE (cwd w)")
  case True
  then have "prompt_loop False LSH_CURRDIR_BUFSIZE (w\<lparr>heap := bs\<rparr>) = Inr (None, w\<lparr>heap := bs\<rparr>)"
    by (subst prompt_loop.simps) (simp add: getcwd_def)
  with True have "lsh_shellprompt (w\<lparr>heap := False # bs\<rparr>) =
           Inr ((), w\<lparr>heap := drop 0 bs,
                      stdout := stdout w @
                        prompt_text (env_USER w)
                          (if getcwd_null w LSH_CURRDIR_BUFSIZE (cwd w) then None
                           else Some (cwd w))\<rparr>)"
    by (simp add: lsh_shellprompt_def malloc_def printf_def)
  then show ?thesis by blast
next
  case False
  let ?w1 = "w\<lparr>heap := bs\<rparr>"
  let ?w2 = "?w1\<lparr>heap := tl (heap ?w1)\<rparr>"
  have nf: "never_fails ?w2"
    using assms by (rule never_fails_tl) simp
  from prompt_loop_granted [OF nf, of "LSH_CURRDIR_BUFSIZE + LSH_CURRDIR_BUFSIZE"] obtain k where
    k: "prompt_loop True (LSH_CURRDIR_BUFSIZE + LSH_CURRDIR_BUFSIZE) ?w2 =
        Inr (Some (cwd ?w2), ?w2\<lparr>heap := drop k (heap ?w2)\<rparr>)"
    by blast
  have "prompt_loop False LSH_CURRDIR_BUFSIZE ?w1 =
        prompt_loop True (LSH_CURRDIR_BUFSIZE + LSH_CURRDIR_BUFSIZE) ?w2"
    using False assms by (subst prompt_loop.simps) (simp add: getcwd_def realloc_granted)
  with k False have "lsh_shellprompt (w\<lparr>heap := False # bs\<rparr>) =
           Inr ((), w\<lparr>heap := drop (Suc k) bs,
                      stdout := stdout w @
                        prompt_text (env_USER w)
                          (if getcwd_null w LSH_CURRDIR_BUFSIZE (cwd w) then None
                           else Some (cwd w))\<rparr>)"
    by (simp add: lsh_shellprompt_def malloc_def printf_def drop_Suc)
  then show ?thesis by blast
qed

lemma lsh_shellprompt_refused_twice:
  assumes "\<not> getcwd_null w LSH_CURRDIR_BUFSIZE (cwd w)"
  shows "lsh_shellprompt (w\<lparr>heap := False # False # bs\<rparr>) =
         Inl (Exit EXIT_FAILURE, eprintf (''lsh: allocation error'' @ [NL]) (w\<lparr>heap := bs\<rparr>))"
proof -
  have "prompt_loop False LSH_CURRDIR_BUFSIZE (w\<lparr>heap := False # bs\<rparr>) =
        Inl (Exit EXIT_FAILURE, eprintf (''lsh: allocation error'' @ [NL]) (w\<lparr>heap := bs\<rparr>))"
    using assms by (subst prompt_loop.simps) (simp add: getcwd_def realloc_def)
  then show ?thesis
    by (simp add: lsh_shellprompt_def malloc_def)
qed

lemma loop_body_eof_after_prompt:
  assumes "lsh_shellprompt w = Inr ((), w1)" and "stdin w1 = []" and "never_fails w1"
  shows "loop_body w = Inr (1, w1\<lparr>heap := drop (Suc (Suc 0)) (heap w1)\<rparr>)"
proof -
  have r: "lsh_read_line w1 = Inr ((1024, [NUL]), w1\<lparr>heap := tl (heap w1)\<rparr>)"
    using lsh_read_line_full [OF assms(3)] assms(2)
    by (auto simp: drop_Suc tl_drop intro!: world.equality)
  let ?w2 = "w1\<lparr>heap := tl (heap w1)\<rparr>"
  have nf2: "never_fails ?w2"
    using assms(3) by (rule never_fails_tl) simp
  have s: "lsh_split_line [NUL] ?w2 = Inr ((LSH_TOK_BUFSIZE, [None]), ?w2\<lparr>heap := tl (heap ?w2)\<rparr>)"
    using lsh_split_line_blank [of "[NUL]" ?w2] nf2
    by (simp add: c_str_def malloc_granted)
  show ?thesis
    using assms(1) r s by (simp add: loop_body_def lsh_execute_def drop_Suc)
qed

subsection \<open>A session of a blank line and \<^verbatim>\<open>exit\<close>\<close>

lemma length_le_concat: "\<forall>t\<in>set ts. t \<noteq> [] \<Longrightarrow> length ts \<le> length (concat ts)"
proof (induction ts)
  case Nil
  show ?case by simp
next
  case (Cons t ts)
  then have "length ts \<le> length (concat ts)" by simp
  moreover from Cons.prems have "1 \<le> length t" by (cases t) auto
  ultimately show ?case by simp
qed

lemma length_words_spec: "length (words_spec delim s) \<le> length s"
proof -
  have "length (words_spec delim s) \<le> length (concat (words_spec delim s))"
    by (rule length_le_concat) (simp add: words_spec_def)
  also have "\<dots> \<le> length s"
    by (simp add: concat_words_spec)
  finally show ?thesis .
qed

lemma loop_body_heap_empty:
  assumes "heap w = []" and "stdin w = line @ NL # behind" and "NL \<notin> set line"
    and "NUL \<notin> set line" and "length line < 1024"
  shows "loop_body w =
         lsh_execute (map Some (words_spec LSH_TOK_DELIM line) @ [None])
           (w\<lparr>stdin := behind,
              stdout := stdout w @ prompt_text (env_USER w) (Some (cwd w))\<rparr>)"
proof -
  let ?w1 = "printf (prompt_text (env_USER w) (Some (cwd w))) w"
  let ?w2 = "?w1\<lparr>stdin := behind\<rparr>"
  have p: "lsh_shellprompt w = Inr ((), ?w1)"
    using assms(1) by (rule lsh_shellprompt_heap_empty)
  have r: "lsh_read_line ?w1 = Inr ((1024, line @ [NUL]), ?w2)"
    using assms by (intro lsh_read_line_heap_empty) (simp_all add: printf_def)
  have nf: "never_fails ?w2"
    using assms(1) by (simp add: never_fails_def printf_def)
  have c: "c_str (line @ [NUL]) = line"
    using assms(4) by (rule c_str_terminated)
  have "length (words_spec LSH_TOK_DELIM line) \<le> length line"
    by (rule length_words_spec)
  with assms(5) have n: "length (words_spec LSH_TOK_DELIM (c_str (line @ [NUL]))) < 2147483584"
    by (simp add: c)
  have h: "?w2\<lparr>heap := drop (Suc (length (words_spec LSH_TOK_DELIM (c_str (line @ [NUL]))) div 64))
                           (heap ?w2)\<rparr> = ?w2"
    using assms(1) by (simp add: printf_def)
  from lsh_split_line_granted [OF nf n]
  have s: "lsh_split_line (line @ [NUL]) ?w2 =
           Inr ((64 * (length (words_spec LSH_TOK_DELIM (c_str (line @ [NUL]))) div 64 + 1),
                 map Some (words_spec LSH_TOK_DELIM line) @ [None]), ?w2)"
    unfolding h by (simp only: c)
  have "?w2 = w\<lparr>stdin := behind,
              stdout := stdout w @ prompt_text (env_USER w) (Some (cwd w))\<rparr>"
    by (simp add: printf_def)
  with loop_body_step [OF p r s] show ?thesis by simp
qed

lemma blank_then_exit_first:
  "loop_body blank_then_exit =
   Inr (1, quiet_world\<lparr>stdin := ''exit'' @ [NL], stdout := ''user@/home/user/projects> ''\<rparr>)"
proof -
  have "loop_body blank_then_exit =
        lsh_execute (map Some (words_spec LSH_TOK_DELIM []) @ [None])
          (blank_then_exit\<lparr>stdin := ''exit'' @ [NL],
             stdout := stdout blank_then_exit @
               prompt_text (env_USER blank_then_exit) (Some (cwd blank_then_exit))\<rparr>)"
    by (rule loop_body_heap_empty)
       (simp_all add: blank_then_exit_def quiet_world_def)
  then show ?thesis
    by (simp add: words_spec_def lsh_execute_def blank_then_exit_def quiet_world_def
          prompt_text_def)
qed

lemma blank_then_exit_second:
  "loop_body (quiet_world\<lparr>stdin := ''exit'' @ [NL], stdout := ''user@/home/user/projects> ''\<rparr>) =
   Inr (0, quiet_world\<lparr>stdout := ''user@/home/user/projects> user@/home/user/projects> ''\<rparr>)"
proof -
  let ?w = "quiet_world\<lparr>stdin := ''exit'' @ [NL], stdout := ''user@/home/user/projects> ''\<rparr>"
  have "loop_body ?w =
        lsh_execute (map Some (words_spec LSH_TOK_DELIM ''exit'') @ [None])
          (?w\<lparr>stdin := [],
             stdout := stdout ?w @ prompt_text (env_USER ?w) (Some (cwd ?w))\<rparr>)"
    by (rule loop_body_heap_empty)
       (simp_all add: quiet_world_def NL_def NUL_def)
  moreover have "words_spec LSH_TOK_DELIM ''exit'' = [''exit'']"
    by (simp add: words_spec_def LSH_TOK_DELIM_def)
  ultimately show ?thesis
    by (simp add: lsh_execute_exit quiet_world_def prompt_text_def)
qed

lemma blank_then_exit_loop:
  "lsh_loop (Suc 0) blank_then_exit =
     Running (quiet_world\<lparr>stdin := ''exit'' @ [NL], stdout := ''user@/home/user/projects> ''\<rparr>)"
  "lsh_loop (Suc (Suc 0)) blank_then_exit =
     Done (Inr ((), quiet_world\<lparr>stdout :=
       ''user@/home/user/projects> user@/home/user/projects> ''\<rparr>))"
proof -
  show "lsh_loop (Suc 0) blank_then_exit =
     Running (quiet_world\<lparr>stdin := ''exit'' @ [NL], stdout := ''user@/home/user/projects> ''\<rparr>)"
    by (simp add: blank_then_exit_first)
  have "lsh_loop (Suc (Suc 0)) blank_then_exit =
        lsh_loop (Suc 0)
          (quiet_world\<lparr>stdin := ''exit'' @ [NL], stdout := ''user@/home/user/projects> ''\<rparr>)"
    by (simp add: blank_then_exit_first)
  also have "\<dots> = Done (Inr ((), quiet_world\<lparr>stdout :=
       ''user@/home/user/projects> user@/home/user/projects> ''\<rparr>))"
    using blank_then_exit_second by simp
  finally show "lsh_loop (Suc (Suc 0)) blank_then_exit =
     Done (Inr ((), quiet_world\<lparr>stdout :=
       ''user@/home/user/projects> user@/home/user/projects> ''\<rparr>))" .
qed

section \<open>The claims\<close>

text \<open>
  Claim C1. Whatever follows it in the token sequence, a first token \<^verbatim>\<open>exit\<close> makes
  the exit handler return the continuation signal 0; the dispatcher returns that 0 and
  leaves the world as it was, and the pass of the main loop that read the line is the
  last one: the loop returns, and \<^verbatim>\<open>main\<close> ends the process with the success code.
\<close>

theorem exit_ends_the_loop:
  "lsh_exit args w = Inr (0, w) \<and>
   lsh_execute (Some ''exit'' # rest) w = Inr (0, w) \<and>
   (lsh_shellprompt w = Inr ((), w1) \<longrightarrow>
    lsh_read_line w1 = Inr ((cap, line), w2) \<longrightarrow>
    lsh_split_line line w2 = Inr ((tcap, Some ''exit'' # rest), w3) \<longrightarrow>
    lsh_loop (Suc n) w = Done (Inr ((), w3)) \<and>
    lsh_main (Suc n) w = Some (Exit EXIT_SUCCESS, w3))"
  by (simp add: lsh_exit_def lsh_execute_exit loop_body_def lsh_main_def)

theorem exit_ends_the_loop_witness:
  "lsh_shellprompt exit_session =
     Inr ((), quiet_world\<lparr>stdin := ''exit now'' @ [NL] @ ''ls'',
                           stdout := ''user@/home/user/projects> ''\<rparr>) \<and>
   lsh_read_line (quiet_world\<lparr>stdin := ''exit now'' @ [NL] @ ''ls'',
                             stdout := ''user@/home/user/projects> ''\<rparr>) =
     Inr ((1024, ''exit now'' @ [NUL]),
          quiet_world\<lparr>stdin := ''ls'', stdout := ''user@/home/user/projects> ''\<rparr>) \<and>
   lsh_split_line (''exit now'' @ [NUL])
       (quiet_world\<lparr>stdin := ''ls'', stdout := ''user@/home/user/projects> ''\<rparr>) =
     Inr ((64, [Some ''exit'', Some ''now'', None]),
          quiet_world\<lparr>stdin := ''ls'', stdout := ''user@/home/user/projects> ''\<rparr>) \<and>
   lsh_loop (Suc 0) exit_session =
     Done (Inr ((), quiet_world\<lparr>stdin := ''ls'', stdout := ''user@/home/user/projects> ''\<rparr>)) \<and>
   lsh_main (Suc 0) exit_session =
     Some (Exit EXIT_SUCCESS,
           quiet_world\<lparr>stdin := ''ls'', stdout := ''user@/home/user/projects> ''\<rparr>)"
proof -
  let ?w1 = "quiet_world\<lparr>stdin := ''exit now'' @ [NL] @ ''ls'',
                          stdout := ''user@/home/user/projects> ''\<rparr>"
  let ?w3 = "quiet_world\<lparr>stdin := ''ls'', stdout := ''user@/home/user/projects> ''\<rparr>"
  have p: "lsh_shellprompt exit_session = Inr ((), ?w1)"
    using prompt_quiet [of "''exit now'' @ [NL] @ ''ls''"] by (simp add: exit_session_def)
  have r: "lsh_read_line ?w1 = Inr ((1024, ''exit now'' @ [NUL]), ?w3)"
    by (rule read_exit_session)
  have s: "lsh_split_line (''exit now'' @ [NUL]) ?w3 =
           Inr ((64, Some ''exit'' # [Some ''now'', None]), ?w3)"
    using split_exit_session [where s = "''ls''" and out = "''user@/home/user/projects> ''"]
    by simp
  from exit_ends_the_loop [of _ exit_session "[Some ''now'', None]" ?w1 1024
      "''exit now'' @ [NUL]" ?w3 64 ?w3 0] p r s
  show ?thesis by simp
qed

text \<open>
  Claim C2. A line that is empty or made of delimiter characters only gives, once the
  tokenizer has its array, the array whose first element is the sentinel; on it the
  dispatcher returns the continuation signal 1 and leaves the world untouched: no
  output of a handler, no result of \<^verbatim>\<open>fork\<close> used up, no change of directory.
\<close>

theorem blank_line_does_nothing:
  assumes "set (c_str line) \<subseteq> set LSH_TOK_DELIM"
    and "fst (malloc (LSH_TOK_BUFSIZE * sizeof_ptr) w)"
  shows "lsh_split_line line w =
           Inr ((LSH_TOK_BUFSIZE, [None]), snd (malloc (LSH_TOK_BUFSIZE * sizeof_ptr) w)) \<and>
         lsh_execute [None] (snd (malloc (LSH_TOK_BUFSIZE * sizeof_ptr) w)) =
           Inr (1, snd (malloc (LSH_TOK_BUFSIZE * sizeof_ptr) w))"
  using assms by (simp add: lsh_split_line_blank lsh_execute_def)

theorem blank_line_does_nothing_witness:
  "set (c_str ([CHR 0x20, CHR 0x09, CHR 0x20, NUL])) \<subseteq> set LSH_TOK_DELIM \<and>
   fst (malloc (LSH_TOK_BUFSIZE * sizeof_ptr) quiet_world) \<and>
   lsh_split_line [CHR 0x20, CHR 0x09, CHR 0x20, NUL] quiet_world =
     Inr ((64, [None]), quiet_world) \<and>
   lsh_execute [None] quiet_world = Inr (1, quiet_world)"
proof -
  have a: "set (c_str ([CHR 0x20, CHR 0x09, CHR 0x20, NUL])) \<subseteq> set LSH_TOK_DELIM"
    by (simp add: c_str_def NUL_def LSH_TOK_DELIM_def)
  have b: "fst (malloc (LSH_TOK_BUFSIZE * sizeof_ptr) quiet_world)"
    by (simp add: malloc_def quiet_world_def)
  have c: "snd (malloc (LSH_TOK_BUFSIZE * sizeof_ptr) quiet_world) = quiet_world"
    by (simp add: malloc_def quiet_world_def)
  from blank_line_does_nothing [OF a b] a b c show ?thesis
    by (simp add: LSH_TOK_BUFSIZE_def)
qed

text \<open>
  Claim C3. Whenever the tokenizer returns its array, the array is the tokens and then
  the sentinel, and the tokens are what cutting the line at every delimiter (space, tab,
  carriage return, newline, bell) and dropping the empty pieces gives: no token is
  empty, no token holds a delimiter, and the tokens, one after the other, are the
  characters of the line that are no delimiters. It does return, with one
  \<^verbatim>\<open>realloc\<close> per 64 tokens, when no allocation fails and the tokens are fewer than
  \<open>2147483584 = 2\<^sup>3\<^sup>1 - 64\<close>. On the line \<^verbatim>\<open>echo  a   b\<close> it returns \<^verbatim>\<open>echo\<close>,
  \<^verbatim>\<open>a\<close>, \<^verbatim>\<open>b\<close> and the sentinel.
\<close>

theorem tokenizer_splits_on_delimiter_runs:
  "(lsh_split_line line w = Inr ((cap, args), w') \<longrightarrow>
      (\<exists>toks. args = map Some toks @ [None] \<and>
         toks = words_spec LSH_TOK_DELIM (c_str line) \<and>
         (\<forall>t\<in>set toks. t \<noteq> [] \<and> (\<forall>c\<in>set t. c \<notin> set LSH_TOK_DELIM)) \<and>
         concat toks = filter (\<lambda>c. c \<notin> set LSH_TOK_DELIM) (c_str line))) \<and>
   (never_fails w \<longrightarrow> length (words_spec LSH_TOK_DELIM (c_str line)) < 2147483584 \<longrightarrow>
      lsh_split_line line w =
        Inr ((LSH_TOK_BUFSIZE *
                (length (words_spec LSH_TOK_DELIM (c_str line)) div LSH_TOK_BUFSIZE + 1),
              map Some (words_spec LSH_TOK_DELIM (c_str line)) @ [None]),
             w\<lparr>heap := drop (Suc (length (words_spec LSH_TOK_DELIM (c_str line))
                                    div LSH_TOK_BUFSIZE)) (heap w)\<rparr>)) \<and>
   (never_fails w \<longrightarrow>
      lsh_split_line (''echo  a   b'' @ [NUL]) w =
        Inr ((LSH_TOK_BUFSIZE, [Some ''echo'', Some ''a'', Some ''b'', None]),
             w\<lparr>heap := tl (heap w)\<rparr>))"
proof (intro conjI impI)
  assume "lsh_split_line line w = Inr ((cap, args), w')"
  then have "args = map Some (words_spec LSH_TOK_DELIM (c_str line)) @ [None]"
    by (rule lsh_split_line_tokens)
  then show "\<exists>toks. args = map Some toks @ [None] \<and>
         toks = words_spec LSH_TOK_DELIM (c_str line) \<and>
         (\<forall>t\<in>set toks. t \<noteq> [] \<and> (\<forall>c\<in>set t. c \<notin> set LSH_TOK_DELIM)) \<and>
         concat toks = filter (\<lambda>c. c \<notin> set LSH_TOK_DELIM) (c_str line)"
    by (auto simp: concat_words_spec dest: words_spec_nonempty words_spec_clean)
next
  assume "never_fails w" "length (words_spec LSH_TOK_DELIM (c_str line)) < 2147483584"
  from lsh_split_line_granted [OF this]
  show "lsh_split_line line w =
        Inr ((LSH_TOK_BUFSIZE *
                (length (words_spec LSH_TOK_DELIM (c_str line)) div LSH_TOK_BUFSIZE + 1),
              map Some (words_spec LSH_TOK_DELIM (c_str line)) @ [None]),
             w\<lparr>heap := drop (Suc (length (words_spec LSH_TOK_DELIM (c_str line))
                                    div LSH_TOK_BUFSIZE)) (heap w)\<rparr>)"
    by (simp add: LSH_TOK_BUFSIZE_def)
next
  assume nf: "never_fails w"
  have "length (words_spec LSH_TOK_DELIM (c_str (''echo  a   b'' @ [NUL]))) < 2147483584"
    unfolding words_echo by simp
  from lsh_split_line_granted [OF nf this]
  show "lsh_split_line (''echo  a   b'' @ [NUL]) w =
        Inr ((LSH_TOK_BUFSIZE, [Some ''echo'', Some ''a'', Some ''b'', None]),
             w\<lparr>heap := tl (heap w)\<rparr>)"
    unfolding words_echo by (simp add: LSH_TOK_BUFSIZE_def drop_Suc)
qed

theorem tokenizer_splits_on_delimiter_runs_witness:
  "never_fails quiet_world \<and>
   lsh_split_line (''echo  a   b'' @ [NUL]) quiet_world =
     Inr ((64, [Some ''echo'', Some ''a'', Some ''b'', None]), quiet_world) \<and>
   (\<exists>toks. [Some ''echo'', Some ''a'', Some ''b'', None] = map Some toks @ [None] \<and>
      toks = words_spec LSH_TOK_DELIM (c_str (''echo  a   b'' @ [NUL])) \<and>
      concat toks = ''echoab'') \<and>
   length (words_spec LSH_TOK_DELIM (c_str (''echo  a   b'' @ [NUL]))) < 2147483584"
proof -
  have nf: "never_fails quiet_world"
    by (simp add: never_fails_def quiet_world_def)
  have h: "quiet_world\<lparr>heap := tl (heap quiet_world)\<rparr> = quiet_world"
    by (simp add: quiet_world_def)
  note t = tokenizer_splits_on_delimiter_runs [where w = quiet_world
      and line = "''echo  a   b'' @ [NUL]"]
  from t [THEN conjunct2, THEN conjunct2, rule_format, OF nf]
  have r: "lsh_split_line (''echo  a   b'' @ [NUL]) quiet_world =
     Inr ((64, [Some ''echo'', Some ''a'', Some ''b'', None]), quiet_world)"
    by (simp add: h LSH_TOK_BUFSIZE_def)
  from t [THEN conjunct1, rule_format, OF r]
  have e: "\<exists>toks. [Some ''echo'', Some ''a'', Some ''b'', None] = map Some toks @ [None] \<and>
      toks = words_spec LSH_TOK_DELIM (c_str (''echo  a   b'' @ [NUL])) \<and>
      concat toks = ''echoab''"
    unfolding words_echo by simp
  have l: "length (words_spec LSH_TOK_DELIM (c_str (''echo  a   b'' @ [NUL]))) < 2147483584"
    unfolding words_echo by simp
  from nf r e l show ?thesis by (intro conjI)
qed

text \<open>
  Claim C4. \<^verbatim>\<open>lsh_cd\<close> returns the continuation signal 1 on every argument vector
  that has its second slot. With \<^verbatim>\<open>NULL\<close> there it writes the usage message
  \<^verbatim>\<open>lsh: expected argument to "cd"\<close> and a newline to the diagnostic stream, and the
  working directory stays. With a path there it calls \<^verbatim>\<open>chdir\<close>: when that fails it
  writes \<^verbatim>\<open>lsh: \<close>, the system's error and a newline to the diagnostic stream and the
  working directory stays; when it succeeds the working directory is the new one and
  nothing is written. The dispatcher hands a first token \<^verbatim>\<open>cd\<close> to this handler.
\<close>

theorem cd_always_continues:
  "lsh_cd (a0 # None # rest) w =
     Inr (1, w\<lparr>stderr := stderr w @ ''lsh: expected argument to '' @ [CHR 0x22] @ ''cd'' @ [CHR 0x22, NL]\<rparr>) \<and>
   (chdir_os w (cwd w) path = Inl e \<longrightarrow>
      lsh_cd (a0 # Some path # rest) w =
        Inr (1, w\<lparr>stderr := stderr w @ ''lsh: '' @ e @ [NL]\<rparr>)) \<and>
   (chdir_os w (cwd w) path = Inr d \<longrightarrow>
      lsh_cd (a0 # Some path # rest) w = Inr (1, w\<lparr>cwd := d\<rparr>)) \<and>
   (2 \<le> length args \<longrightarrow> (\<exists>w'. lsh_cd args w = Inr (1, w'))) \<and>
   lsh_execute (Some ''cd'' # rest) w = lsh_cd (Some ''cd'' # rest) w"
proof (intro conjI impI)
  show "\<exists>w'. lsh_cd args w = Inr (1, w')" if "2 \<le> length args"
  proof -
    from that obtain a b xs where "args = a # b # xs"
      by (cases args; cases "tl args") auto
    then show ?thesis
      by (cases b) (auto simp: chdir_def split: sum.splits)
  qed
qed (simp_all add: eprintf_def perror_def chdir_def cd_usage_def lsh_execute_def execute_loop_0)

theorem cd_always_continues_witness:
  "lsh_cd [Some ''cd'', None] quiet_world =
     Inr (1, quiet_world\<lparr>stderr := ''lsh: expected argument to '' @ [CHR 0x22] @ ''cd'' @ [CHR 0x22, NL]\<rparr>) \<and>
   lsh_cd [Some ''cd'', Some ''/nonexistent'', None] quiet_world =
     Inr (1, quiet_world\<lparr>stderr := ''lsh: No such file or directory'' @ [NL]\<rparr>) \<and>
   lsh_cd [Some ''cd'', Some ''/tmp'', None] quiet_world = Inr (1, quiet_world\<lparr>cwd := ''/tmp''\<rparr>) \<and>
   (\<exists>w'. lsh_cd [Some ''cd'', Some ''/tmp'', Some ''more'', None] quiet_world = Inr (1, w')) \<and>
   lsh_execute [Some ''cd'', None] quiet_world =
     Inr (1, quiet_world\<lparr>stderr := ''lsh: expected argument to '' @ [CHR 0x22] @ ''cd'' @ [CHR 0x22, NL]\<rparr>)"
proof -
  have a: "chdir_os quiet_world (cwd quiet_world) ''/nonexistent'' = Inl ''No such file or directory''"
    by (simp add: quiet_world_def)
  have b: "chdir_os quiet_world (cwd quiet_world) ''/tmp'' = Inr ''/tmp''"
    by (simp add: quiet_world_def)
  have c: "2 \<le> length [Some ''cd'', Some ''/tmp'', Some ''more'', None]"
    by simp
  have s: "stderr quiet_world = []"
    by (simp add: quiet_world_def)
  note t = cd_always_continues [where w = quiet_world and ?a0.0 = "Some ''cd''" and rest = "[None]"]
  note u = cd_always_continues [where w = quiet_world and ?a0.0 = "Some ''cd''" and rest = "[]"]
  from u [THEN conjunct1]
    t [where path = "''/nonexistent''", THEN conjunct2, THEN conjunct1, rule_format, OF a]
    t [where path = "''/tmp''", THEN conjunct2, THEN conjunct2, THEN conjunct1, rule_format, OF b]
    t [where args = "[Some ''cd'', Some ''/tmp'', Some ''more'', None]", THEN conjunct2,
      THEN conjunct2, THEN conjunct2, THEN conjunct1, rule_format, OF c]
    t [THEN conjunct2, THEN conjunct2, THEN conjunct2, THEN conjunct2]
  show ?thesis
    by (simp add: s)
qed

text \<open>
  Claim C5, at the input where the code departs from it. Let the allocator refuse the
  first request of a call and grant the later ones. \<^verbatim>\<open>lsh_read_line\<close> and
  \<^verbatim>\<open>lsh_split_line\<close> write \<^verbatim>\<open>lsh: allocation error\<close> and exit with the failure code.
  \<^verbatim>\<open>lsh_shellprompt\<close> does neither: it returns as after any other prompt, with nothing
  written to the diagnostic stream, and the pass it belongs to goes on and, at the end of
  the input, gives the continuation signal 1. Only a second refusal in a row, of the
  \<^verbatim>\<open>realloc\<close> that follows a \<^verbatim>\<open>getcwd\<close> without result, is fatal in the prompt.
\<close>

theorem prompt_malloc_is_unchecked:
  "(never_fails (w\<lparr>heap := bs\<rparr>) \<longrightarrow>
      (\<exists>k. lsh_shellprompt (w\<lparr>heap := False # bs\<rparr>) =
         Inr ((), w\<lparr>heap := drop k bs,
                    stdout := stdout w @
                      prompt_text (env_USER w)
                        (if getcwd_null w LSH_CURRDIR_BUFSIZE (cwd w) then None
                         else Some (cwd w))\<rparr>)) \<and>
      (stdin w = [] \<longrightarrow>
         (\<exists>k. loop_body (w\<lparr>heap := False # bs\<rparr>) =
            Inr (1, w\<lparr>heap := drop k bs,
                      stdout := stdout w @
                        prompt_text (env_USER w)
                          (if getcwd_null w LSH_CURRDIR_BUFSIZE (cwd w) then None
                           else Some (cwd w))\<rparr>)))) \<and>
   (\<not> getcwd_null w LSH_CURRDIR_BUFSIZE (cwd w) \<longrightarrow>
      lsh_shellprompt (w\<lparr>heap := False # False # bs\<rparr>) =
        Inl (Exit EXIT_FAILURE, w\<lparr>heap := bs, stderr := stderr w @ ''lsh: allocation error'' @ [NL]\<rparr>)) \<and>
   lsh_read_line (w\<lparr>heap := False # bs\<rparr>) =
     Inl (Exit EXIT_FAILURE, w\<lparr>heap := bs, stderr := stderr w @ ''lsh: allocation error'' @ [NL]\<rparr>) \<and>
   lsh_split_line line (w\<lparr>heap := False # bs\<rparr>) =
     Inl (Exit EXIT_FAILURE, w\<lparr>heap := bs, stderr := stderr w @ ''lsh: allocation error'' @ [NL]\<rparr>)"
proof (intro conjI impI)
  assume nf: "never_fails (w\<lparr>heap := bs\<rparr>)"
  from lsh_shellprompt_refused [OF nf] obtain k where
    p: "lsh_shellprompt (w\<lparr>heap := False # bs\<rparr>) =
         Inr ((), w\<lparr>heap := drop k bs,
                    stdout := stdout w @
                      prompt_text (env_USER w)
                        (if getcwd_null w LSH_CURRDIR_BUFSIZE (cwd w) then None
                         else Some (cwd w))\<rparr>)" (is "_ = Inr ((), ?w1)")
    by blast
  then show "\<exists>k. lsh_shellprompt (w\<lparr>heap := False # bs\<rparr>) =
         Inr ((), w\<lparr>heap := drop k bs,
                    stdout := stdout w @
                      prompt_text (env_USER w)
                        (if getcwd_null w LSH_CURRDIR_BUFSIZE (cwd w) then None
                         else Some (cwd w))\<rparr>)"
    by blast
  assume eof: "stdin w = []"
  have nf1: "never_fails ?w1"
    using nf by (rule never_fails_drop [where k = k]) simp
  have "stdin ?w1 = []"
    using eof by simp
  from loop_body_eof_after_prompt [OF p this nf1]
  have "loop_body (w\<lparr>heap := False # bs\<rparr>) =
        Inr (1, w\<lparr>heap := drop (k + Suc (Suc 0)) bs,
                  stdout := stdout w @
                    prompt_text (env_USER w)
                      (if getcwd_null w LSH_CURRDIR_BUFSIZE (cwd w) then None
                       else Some (cwd w))\<rparr>)"
    by (simp add: add.commute)
  then show "\<exists>k. loop_body (w\<lparr>heap := False # bs\<rparr>) =
            Inr (1, w\<lparr>heap := drop k bs,
                      stdout := stdout w @
                        prompt_text (env_USER w)
                          (if getcwd_null w LSH_CURRDIR_BUFSIZE (cwd w) then None
                           else Some (cwd w))\<rparr>)"
    by blast
next
  assume "\<not> getcwd_null w LSH_CURRDIR_BUFSIZE (cwd w)"
  from lsh_shellprompt_refused_twice [OF this]
  show "lsh_shellprompt (w\<lparr>heap := False # False # bs\<rparr>) =
        Inl (Exit EXIT_FAILURE, w\<lparr>heap := bs, stderr := stderr w @ ''lsh: allocation error'' @ [NL]\<rparr>)"
    by (simp add: eprintf_def)
qed (simp_all add: lsh_read_line_def lsh_split_line_def malloc_def eprintf_def)

theorem prompt_malloc_is_unchecked_witness:
  "never_fails (quiet_world\<lparr>heap := []\<rparr>) \<and> stdin quiet_world = [] \<and>
   \<not> getcwd_null quiet_world LSH_CURRDIR_BUFSIZE (cwd quiet_world) \<and>
   lsh_shellprompt (quiet_world\<lparr>heap := [False]\<rparr>) =
     Inr ((), quiet_world\<lparr>stdout := ''user@/home/user/projects> ''\<rparr>) \<and>
   loop_body (quiet_world\<lparr>heap := [False]\<rparr>) =
     Inr (1, quiet_world\<lparr>stdout := ''user@/home/user/projects> ''\<rparr>) \<and>
   lsh_shellprompt (quiet_world\<lparr>heap := [False, False]\<rparr>) =
     Inl (Exit EXIT_FAILURE, quiet_world\<lparr>stderr := ''lsh: allocation error'' @ [NL]\<rparr>) \<and>
   never_fails (quiet_world\<lparr>cwd := ''/tmp'', heap := []\<rparr>) \<and>
   lsh_shellprompt (quiet_world\<lparr>cwd := ''/tmp'', heap := [False]\<rparr>) =
     Inr ((), quiet_world\<lparr>cwd := ''/tmp'', stdout := ''user@(null)> ''\<rparr>)"
proof -
  have nf: "never_fails (quiet_world\<lparr>heap := []\<rparr>)"
    by (simp add: never_fails_def)
  have nf': "never_fails (quiet_world\<lparr>cwd := ''/tmp'', heap := []\<rparr>)"
    by (simp add: never_fails_def)
  have eof: "stdin quiet_world = []"
    by (simp add: quiet_world_def)
  have g: "\<not> getcwd_null quiet_world LSH_CURRDIR_BUFSIZE (cwd quiet_world)"
    by (simp add: quiet_world_def LSH_CURRDIR_BUFSIZE_def)
  note t = prompt_malloc_is_unchecked [where w = quiet_world and bs = "[]"]
  note t' = prompt_malloc_is_unchecked [where w = "quiet_world\<lparr>cwd := ''/tmp''\<rparr>" and bs = "[]"]
  from t [THEN conjunct1, rule_format, OF nf, THEN conjunct1]
  have p: "lsh_shellprompt (quiet_world\<lparr>heap := [False]\<rparr>) =
     Inr ((), quiet_world\<lparr>stdout := ''user@/home/user/projects> ''\<rparr>)"
    by (simp add: quiet_world_def LSH_CURRDIR_BUFSIZE_def prompt_text_def)
  from t [THEN conjunct1, rule_format, OF nf, THEN conjunct2, rule_format, OF eof]
  have b: "loop_body (quiet_world\<lparr>heap := [False]\<rparr>) =
     Inr (1, quiet_world\<lparr>stdout := ''user@/home/user/projects> ''\<rparr>)"
    by (simp add: quiet_world_def LSH_CURRDIR_BUFSIZE_def prompt_text_def)
  from t [THEN conjunct2, THEN conjunct1, rule_format, OF g]
  have r: "lsh_shellprompt (quiet_world\<lparr>heap := [False, False]\<rparr>) =
     Inl (Exit EXIT_FAILURE, quiet_world\<lparr>stderr := ''lsh: allocation error'' @ [NL]\<rparr>)"
    by (simp add: quiet_world_def)
  from t' [THEN conjunct1, rule_format, OF nf', THEN conjunct1]
  have p': "lsh_shellprompt (quiet_world\<lparr>cwd := ''/tmp'', heap := [False]\<rparr>) =
     Inr ((), quiet_world\<lparr>cwd := ''/tmp'', stdout := ''user@(null)> ''\<rparr>)"
    by (simp add: quiet_world_def LSH_CURRDIR_BUFSIZE_def prompt_text_def)
  from nf eof g p b r nf' p' show ?thesis by (intro conjI)
qed

text \<open>
  Claim C6. Let the command be no builtin and let the execution-path lookup fail for it.
  In the child, the dispatcher ends in \<^verbatim>\<open>perror\<close> and \<^verbatim>\<open>exit(EXIT_FAILURE)\<close>; the
  main loop of the child makes no further pass, whatever it had left to do, and the child
  process ends with the failure code. In the parent, once the child is reported as exited
  with that code, the dispatcher returns the continuation signal 1 and the main loop
  goes on with its next pass.
\<close>

theorem failed_exec_ends_child_only:
  assumes "file \<notin> set builtin_str"
    and "execvp_os w file (Some file # rest) = Some e"
  shows "lsh_execute (Some file # rest) (w\<lparr>forks := ForkChild # fs\<rparr>) =
           Inl (Exit EXIT_FAILURE, perror ''lsh'' e (w\<lparr>forks := fs\<rparr>)) \<and>
         (loop_body w0 = lsh_execute (Some file # rest) (w\<lparr>forks := ForkChild # fs\<rparr>) \<longrightarrow>
            lsh_loop (Suc n) w0 =
              Done (Inl (Exit EXIT_FAILURE, perror ''lsh'' e (w\<lparr>forks := fs\<rparr>))) \<and>
            lsh_main (Suc n) w0 =
              Some (Exit EXIT_FAILURE, perror ''lsh'' e (w\<lparr>forks := fs\<rparr>))) \<and>
         (children w p = WExited EXIT_FAILURE # es \<longrightarrow>
            lsh_execute (Some file # rest) (w\<lparr>forks := ForkParent p # fs\<rparr>) =
              Inr (1, w\<lparr>forks := fs, children := (children w)(p := es)\<rparr>) \<and>
            (loop_body w0' = lsh_execute (Some file # rest) (w\<lparr>forks := ForkParent p # fs\<rparr>) \<longrightarrow>
               lsh_loop (Suc n) w0' =
                 lsh_loop n (w\<lparr>forks := fs, children := (children w)(p := es)\<rparr>)))"
proof -
  have child: "lsh_execute (Some file # rest) (w\<lparr>forks := ForkChild # fs\<rparr>) =
               Inl (Exit EXIT_FAILURE, perror ''lsh'' e (w\<lparr>forks := fs\<rparr>))"
    using assms by (simp add: lsh_execute_launch lsh_launch_child [where fs = fs])
  have parent: "lsh_execute (Some file # rest) (w\<lparr>forks := ForkParent p # fs\<rparr>) =
                Inr (1, w\<lparr>forks := fs, children := (children w)(p := es)\<rparr>)"
    if "children w p = WExited EXIT_FAILURE # es"
    using assms(1) that
    by (simp add: lsh_execute_launch lsh_launch_parent [where fs = fs and p = p]
          wait_loop_exited [where c = EXIT_FAILURE and es = es])
  show ?thesis
    using child parent by (simp add: lsh_main_def)
qed

theorem failed_exec_ends_child_only_witness:
  "''nosuch'' \<notin> set builtin_str \<and>
   lsh_loop (Suc 3) (launch_session [ForkChild] (\<lambda>q. [])) =
     Done (Inl (Exit EXIT_FAILURE,
       quiet_world\<lparr>stdout := ''user@/home/user/projects> '',
                   stderr := ''lsh: No such file or directory'' @ [NL]\<rparr>)) \<and>
   lsh_main (Suc 3) (launch_session [ForkChild] (\<lambda>q. [])) =
     Some (Exit EXIT_FAILURE,
       quiet_world\<lparr>stdout := ''user@/home/user/projects> '',
                   stderr := ''lsh: No such file or directory'' @ [NL]\<rparr>) \<and>
   lsh_loop (Suc 3) (launch_session [ForkParent 7] ((\<lambda>q. [])(7 := [WExited EXIT_FAILURE]))) =
     lsh_loop 3 (quiet_world\<lparr>stdout := ''user@/home/user/projects> ''\<rparr>)"
proof -
  let ?w = "quiet_world\<lparr>stdout := ''user@/home/user/projects> '',
                        children := (\<lambda>q. [])(7 := [WExited EXIT_FAILURE])\<rparr>"
  let ?v = "quiet_world\<lparr>stdout := ''user@/home/user/projects> ''\<rparr>"
  have a: "''nosuch'' \<notin> set builtin_str"
    by (simp add: builtin_str_def)
  have b: "execvp_os ?w ''nosuch'' (Some ''nosuch'' # [Some ''-x'', None]) =
           Some ''No such file or directory''"
    by (simp add: quiet_world_def)
  have b': "execvp_os ?v ''nosuch'' (Some ''nosuch'' # [Some ''-x'', None]) =
           Some ''No such file or directory''"
    by (simp add: quiet_world_def)
  have c: "children ?w 7 = WExited EXIT_FAILURE # []"
    by simp
  have lc: "loop_body (launch_session [ForkChild] (\<lambda>q. [])) =
            lsh_execute (Some ''nosuch'' # [Some ''-x'', None]) (?v\<lparr>forks := ForkChild # []\<rparr>)"
    by (simp add: loop_body_launch_session quiet_world_def)
  have lp: "loop_body (launch_session [ForkParent 7] ((\<lambda>q. [])(7 := [WExited EXIT_FAILURE]))) =
            lsh_execute (Some ''nosuch'' # [Some ''-x'', None]) (?w\<lparr>forks := ForkParent 7 # []\<rparr>)"
    by (simp add: loop_body_launch_session quiet_world_def)
  have e1: "perror ''lsh'' ''No such file or directory'' (?v\<lparr>forks := []\<rparr>) =
            quiet_world\<lparr>stdout := ''user@/home/user/projects> '',
                   stderr := ''lsh: No such file or directory'' @ [NL]\<rparr>"
    by (simp add: perror_def eprintf_def quiet_world_def)
  have e2: "?w\<lparr>forks := [], children := (children ?w)(7 := [])\<rparr> = ?v"
    by (auto simp: quiet_world_def)
  from failed_exec_ends_child_only [OF a b', where fs = "[]" and ?w0.0 = "launch_session [ForkChild] (\<lambda>q. [])" and n = 3,
      THEN conjunct2, THEN conjunct1, rule_format, OF lc]
  have r1: "lsh_loop (Suc 3) (launch_session [ForkChild] (\<lambda>q. [])) =
     Done (Inl (Exit EXIT_FAILURE,
       quiet_world\<lparr>stdout := ''user@/home/user/projects> '',
                   stderr := ''lsh: No such file or directory'' @ [NL]\<rparr>)) \<and>
   lsh_main (Suc 3) (launch_session [ForkChild] (\<lambda>q. [])) =
     Some (Exit EXIT_FAILURE,
       quiet_world\<lparr>stdout := ''user@/home/user/projects> '',
                   stderr := ''lsh: No such file or directory'' @ [NL]\<rparr>)"
    unfolding e1 .
  from failed_exec_ends_child_only [OF a b, where fs = "[]" and p = 7 and es = "[]"
      and ?w0' = "launch_session [ForkParent 7] ((\<lambda>q. [])(7 := [WExited EXIT_FAILURE]))" and n = 3,
      THEN conjunct2, THEN conjunct2, rule_format, OF c, THEN conjunct2, rule_format, OF lp]
  have r2: "lsh_loop (Suc 3) (launch_session [ForkParent 7] ((\<lambda>q. [])(7 := [WExited EXIT_FAILURE]))) =
     lsh_loop 3 ?v"
    unfolding e2 .
  from a r1 r2 show ?thesis by (intro conjI) simp_all
qed

text \<open>
  Claim C7. In the parent, after a \<^verbatim>\<open>fork\<close> that gave the child \<open>p\<close>, the launcher waits
  on \<open>p\<close> and on no other child, and goes on waiting through any number of stop reports.
  It returns, with the continuation signal 1, once \<^verbatim>\<open>waitpid\<close> reports that the child
  exited or was killed by a signal, and only then: when it returns, such a report ended
  a run of stop reports. When \<^verbatim>\<open>waitpid\<close> fails it writes the error and the parent
  exits with the failure code; while the child is only stopped it never returns.
\<close>

theorem parent_waits_for_child:
  assumes "forks w = ForkParent p # fs"
  shows "(children w p = replicate k WStopped @ WExited c # es \<longrightarrow>
            lsh_launch args w =
            Inr (1, w\<lparr>forks := fs, children := (children w)(p := es)\<rparr>)) \<and>
         (children w p = replicate k WStopped @ WSignaled c # es \<longrightarrow>
            lsh_launch args w =
            Inr (1, w\<lparr>forks := fs, children := (children w)(p := es)\<rparr>)) \<and>
         (children w p = replicate k WStopped @ WaitFailed e # es \<longrightarrow>
            lsh_launch args w =
            Inl (Exit EXIT_FAILURE,
                 perror ''lsh'' e (w\<lparr>forks := fs, children := (children w)(p := es)\<rparr>))) \<and>
         (children w p = replicate k WStopped \<longrightarrow>
            lsh_launch args w =
            Inl (BlockedForever, w\<lparr>forks := fs, children := (children w)(p := [])\<rparr>)) \<and>
         (lsh_launch args w = Inr (s, w') \<longrightarrow>
            s = 1 \<and>
            (\<exists>j ev evs. children w p = replicate j WStopped @ ev # evs \<and>
               ((\<exists>c. ev = WExited c) \<or> (\<exists>c. ev = WSignaled c)) \<and>
               w' = w\<lparr>forks := fs, children := (children w)(p := evs)\<rparr>))"
proof (intro conjI impI)
  let ?w1 = "w\<lparr>forks := fs\<rparr>"
  note launch = lsh_launch_parent [OF assms, of args]
  show "lsh_launch args w = Inr (1, w\<lparr>forks := fs, children := (children w)(p := es)\<rparr>)"
    if "children w p = replicate k WStopped @ WExited c # es"
  proof -
    from that have "wait_loop p ?w1 = wait_loop p (?w1\<lparr>children := (children ?w1)(p := WExited c # es)\<rparr>)"
      by (intro wait_loop_stopped) simp
    also have "\<dots> = Inr ((), w\<lparr>forks := fs, children := (children w)(p := es)\<rparr>)"
      by (subst wait_loop_exited [where c = c and es = es]) simp_all
    finally show ?thesis by (simp add: launch)
  qed
  show "lsh_launch args w = Inr (1, w\<lparr>forks := fs, children := (children w)(p := es)\<rparr>)"
    if "children w p = replicate k WStopped @ WSignaled c # es"
  proof -
    from that have "wait_loop p ?w1 = wait_loop p (?w1\<lparr>children := (children ?w1)(p := WSignaled c # es)\<rparr>)"
      by (intro wait_loop_stopped) simp
    also have "\<dots> = Inr ((), w\<lparr>forks := fs, children := (children w)(p := es)\<rparr>)"
      by (subst wait_loop_signaled [where c = c and es = es]) simp_all
    finally show ?thesis by (simp add: launch)
  qed
  show "lsh_launch args w =
        Inl (Exit EXIT_FAILURE,
             perror ''lsh'' e (w\<lparr>forks := fs, children := (children w)(p := es)\<rparr>))"
    if "children w p = replicate k WStopped @ WaitFailed e # es"
  proof -
    from that have "wait_loop p ?w1 = wait_loop p (?w1\<lparr>children := (children ?w1)(p := WaitFailed e # es)\<rparr>)"
      by (intro wait_loop_stopped) simp
    also have "\<dots> = Inl (Exit EXIT_FAILURE,
        perror ''lsh'' e (w\<lparr>forks := fs, children := (children w)(p := es)\<rparr>))"
      by (subst wait_loop_failed [where e = e and es = es]) simp_all
    finally show ?thesis by (simp add: launch)
  qed
  show "lsh_launch args w =
        Inl (BlockedForever, w\<lparr>forks := fs, children := (children w)(p := [])\<rparr>)"
    if "children w p = replicate k WStopped"
  proof -
    from that have "wait_loop p ?w1 = wait_loop p (?w1\<lparr>children := (children ?w1)(p := [])\<rparr>)"
      by (intro wait_loop_stopped) simp
    also have "\<dots> = Inl (BlockedForever, w\<lparr>forks := fs, children := (children w)(p := [])\<rparr>)"
      by (subst wait_loop_blocked) simp_all
    finally show ?thesis by (simp add: launch)
  qed
  assume r: "lsh_launch args w = Inr (s, w')"
  then show "s = 1" by (rule lsh_launch_status)
  from r obtain u where "wait_loop p ?w1 = Inr (u, w')"
    by (auto simp: launch split: sum.splits)
  from wait_loop_returns [OF this]
  show "\<exists>j ev evs. children w p = replicate j WStopped @ ev # evs \<and>
          ((\<exists>c. ev = WExited c) \<or> (\<exists>c. ev = WSignaled c)) \<and>
          w' = w\<lparr>forks := fs, children := (children w)(p := evs)\<rparr>"
    by simp
qed

theorem parent_waits_for_child_witness:
  "lsh_launch [Some ''ls'', None] (waiting_world [WStopped, WStopped, WExited 0, WExited 5]) =
     Inr (1, (waiting_world [WStopped, WStopped, WExited 0, WExited 5])
               \<lparr>forks := [],
                children := (children (waiting_world [WStopped, WStopped, WExited 0, WExited 5]))
                              (7 := [WExited 5])\<rparr>) \<and>
   lsh_launch [Some ''ls'', None] (waiting_world [WStopped, WSignaled 9]) =
     Inr (1, (waiting_world [WStopped, WSignaled 9])
               \<lparr>forks := [],
                children := (children (waiting_world [WStopped, WSignaled 9]))(7 := [])\<rparr>) \<and>
   lsh_launch [Some ''ls'', None]
       (waiting_world [WStopped, WaitFailed ''Interrupted system call'']) =
     Inl (Exit EXIT_FAILURE,
          perror ''lsh'' ''Interrupted system call''
            ((waiting_world [WStopped, WaitFailed ''Interrupted system call''])
               \<lparr>forks := [],
                children :=
                  (children (waiting_world [WStopped, WaitFailed ''Interrupted system call'']))
                  (7 := [])\<rparr>)) \<and>
   lsh_launch [Some ''ls'', None] (waiting_world [WStopped, WStopped]) =
     Inl (BlockedForever,
          (waiting_world [WStopped, WStopped])
            \<lparr>forks := [], children := (children (waiting_world [WStopped, WStopped]))(7 := [])\<rparr>) \<and>
   (\<exists>j ev evs.
      children (waiting_world [WStopped, WStopped, WExited 0, WExited 5]) 7 =
        replicate j WStopped @ ev # evs \<and>
      ((\<exists>c. ev = WExited c) \<or> (\<exists>c. ev = WSignaled c)))"
proof -
  have f: "forks (waiting_world evs) = ForkParent 7 # []" for evs
    by (simp add: waiting_world_def)
  have c1: "children (waiting_world [WStopped, WStopped, WExited 0, WExited 5]) 7 =
            replicate (Suc (Suc 0)) WStopped @ WExited 0 # [WExited 5]"
    by (simp add: waiting_world_def)
  have c2: "children (waiting_world [WStopped, WSignaled 9]) 7 =
            replicate (Suc 0) WStopped @ WSignaled 9 # []"
    by (simp add: waiting_world_def)
  have c3: "children (waiting_world [WStopped, WaitFailed ''Interrupted system call'']) 7 =
            replicate (Suc 0) WStopped @ WaitFailed ''Interrupted system call'' # []"
    by (simp add: waiting_world_def)
  have c4: "children (waiting_world [WStopped, WStopped]) 7 = replicate (Suc (Suc 0)) WStopped"
    by (simp add: waiting_world_def)
  note t = parent_waits_for_child [OF f]
  have r1: "lsh_launch [Some ''ls'', None] (waiting_world [WStopped, WStopped, WExited 0, WExited 5]) =
     Inr (1, (waiting_world [WStopped, WStopped, WExited 0, WExited 5])
               \<lparr>forks := [],
                children := (children (waiting_world [WStopped, WStopped, WExited 0, WExited 5]))
                              (7 := [WExited 5])\<rparr>)"
    using t [THEN conjunct1, rule_format, OF c1] .
  have r2: "lsh_launch [Some ''ls'', None] (waiting_world [WStopped, WSignaled 9]) =
     Inr (1, (waiting_world [WStopped, WSignaled 9])
               \<lparr>forks := [],
                children := (children (waiting_world [WStopped, WSignaled 9]))(7 := [])\<rparr>)"
    using t [THEN conjunct2, THEN conjunct1, rule_format, OF c2] .
  have r3: "lsh_launch [Some ''ls'', None]
       (waiting_world [WStopped, WaitFailed ''Interrupted system call'']) =
     Inl (Exit EXIT_FAILURE,
          perror ''lsh'' ''Interrupted system call''
            ((waiting_world [WStopped, WaitFailed ''Interrupted system call''])
               \<lparr>forks := [],
                children :=
                  (children (waiting_world [WStopped, WaitFailed ''Interrupted system call'']))
                  (7 := [])\<rparr>))"
    using t [THEN conjunct2, THEN conjunct2, THEN conjunct1, rule_format, OF c3] .
  have r4: "lsh_launch [Some ''ls'', None] (waiting_world [WStopped, WStopped]) =
     Inl (BlockedForever,
          (waiting_world [WStopped, WStopped])
            \<lparr>forks := [], children := (children (waiting_world [WStopped, WStopped]))(7 := [])\<rparr>)"
    using t [THEN conjunct2, THEN conjunct2, THEN conjunct2, THEN conjunct1, rule_format, OF c4] .
  from t [THEN conjunct2, THEN conjunct2, THEN conjunct2, THEN conjunct2, rule_format, OF r1]
  have r5: "\<exists>j ev evs.
      children (waiting_world [WStopped, WStopped, WExited 0, WExited 5]) 7 =
        replicate j WStopped @ ev # evs \<and>
      ((\<exists>c. ev = WExited c) \<or> (\<exists>c. ev = WSignaled c))"
    by blast
  from r1 r2 r3 r4 r5 show ?thesis by (intro conjI)
qed

text \<open>
  Claim C8, as amended. When no allocation fails and the line has fewer than
  \<open>2147482624 = 2\<^sup>3\<^sup>1 - 1024\<close> characters, \<^verbatim>\<open>lsh_read_line\<close> returns the whole line,
  whatever its length: the block holds every character before the newline or the end of
  the stream, in order, then the terminator, which takes the place of the newline; the
  capacity is the first multiple of 1024 above the length, one \<^verbatim>\<open>realloc\<close> per 1024
  characters; the input behind the newline is left unread. A line without a terminator
  byte of its own reads back, as a C string, as itself.
\<close>

theorem read_line_returns_whole_line:
  assumes "never_fails w"
    and "length (takeWhile (\<lambda>c. c \<noteq> NL) (stdin w)) < 2147482624"
  shows "lsh_read_line w =
           Inr ((LSH_RL_BUFSIZE *
                   (length (takeWhile (\<lambda>c. c \<noteq> NL) (stdin w)) div LSH_RL_BUFSIZE + 1),
                 takeWhile (\<lambda>c. c \<noteq> NL) (stdin w) @ [NUL]),
                w\<lparr>stdin := drop (Suc (length (takeWhile (\<lambda>c. c \<noteq> NL) (stdin w)))) (stdin w),
                  heap := drop (Suc (length (takeWhile (\<lambda>c. c \<noteq> NL) (stdin w))
                                       div LSH_RL_BUFSIZE)) (heap w)\<rparr>) \<and>
         (NUL \<notin> set (takeWhile (\<lambda>c. c \<noteq> NL) (stdin w)) \<longrightarrow>
            c_str (takeWhile (\<lambda>c. c \<noteq> NL) (stdin w) @ [NUL]) =
            takeWhile (\<lambda>c. c \<noteq> NL) (stdin w))"
  using lsh_read_line_full [OF assms] by (simp add: LSH_RL_BUFSIZE_def c_str_terminated)

theorem read_line_returns_whole_line_witness:
  "never_fails (quiet_world\<lparr>stdin := replicate 1500 (CHR ''a'') @ [NL] @ ''exit''\<rparr>) \<and>
   length (takeWhile (\<lambda>c. c \<noteq> NL)
     (stdin (quiet_world\<lparr>stdin := replicate 1500 (CHR ''a'') @ [NL] @ ''exit''\<rparr>))) < 2147482624 \<and>
   NUL \<notin> set (replicate 1500 (CHR ''a'')) \<and>
   lsh_read_line (quiet_world\<lparr>stdin := replicate 1500 (CHR ''a'') @ [NL] @ ''exit''\<rparr>) =
     Inr ((2048, replicate 1500 (CHR ''a'') @ [NUL]), quiet_world\<lparr>stdin := ''exit''\<rparr>) \<and>
   c_str (replicate 1500 (CHR ''a'') @ [NUL]) = replicate 1500 (CHR ''a'')"
proof -
  let ?w = "quiet_world\<lparr>stdin := replicate 1500 (CHR ''a'') @ [NL] @ ''exit''\<rparr>"
  have line: "takeWhile (\<lambda>c. c \<noteq> NL) (stdin ?w) = replicate 1500 (CHR ''a'')"
    by (simp add: NL_def takeWhile_append)
  have nf: "never_fails ?w"
    by (simp add: never_fails_def quiet_world_def)
  have len: "length (takeWhile (\<lambda>c. c \<noteq> NL) (stdin ?w)) < 2147482624"
    by (simp add: NL_def takeWhile_append)
  have nul: "NUL \<notin> set (replicate 1500 (CHR ''a''))"
    by (simp add: NUL_def)
  have h: "heap quiet_world = []"
    by (simp add: quiet_world_def)
  have w': "quiet_world\<lparr>stdin := ''exit'', heap := []\<rparr> = quiet_world\<lparr>stdin := ''exit''\<rparr>"
    by (simp add: quiet_world_def)
  from read_line_returns_whole_line [OF nf len] nf len nul show ?thesis
    unfolding line by (simp add: LSH_RL_BUFSIZE_def h w')
qed

text \<open>
  Claim C8 as it was stated, for every input line, fails at a line of \<open>2\<^sup>3\<^sup>1 - 1024\<close>
  characters: with an allocator that grants every request, the capacity counter, an
  \<^verbatim>\<open>int\<close>, is at \<open>2147482624\<close> when the buffer is full, and
  \<^verbatim>\<open>bufsize += LSH_RL_BUFSIZE\<close> leaves the range of \<^verbatim>\<open>int\<close>. No line is returned.
\<close>

theorem read_line_overflow_counterexample:
  "lsh_read_line (quiet_world\<lparr>stdin := replicate 2147482624 (CHR ''a'') @ [NL]\<rparr>) =
   Inl (SignedOverflow, quiet_world\<lparr>stdin := [NL]\<rparr>)"
  using lsh_read_line_overflow [of "quiet_world\<lparr>stdin := replicate 2147482624 (CHR ''a'') @ [NL]\<rparr>"]
  by (simp add: quiet_world_def never_fails_def NL_def takeWhile_append)

text \<open>
  Claim C9. The dispatcher returns the continuation signal 0 exactly when the first token
  is \<^verbatim>\<open>exit\<close>: on that token it returns 0, and whenever it returns at all the signal is
  0 with a first token \<^verbatim>\<open>exit\<close>, or 1 with another one. An empty command gives 1; the
  \<^verbatim>\<open>cd\<close> and \<^verbatim>\<open>help\<close> handlers and the launcher give 1 whenever they return.
  So the main loop, started in a world \<open>w\<close>, returns within \<open>n\<close> passes exactly when
  fewer than \<open>n\<close> passes of this run, each with a signal other than 0, lead from \<open>w\<close> to a
  world in which the next pass gives 0; and in that last pass of the run the line read
  began with the token \<^verbatim>\<open>exit\<close>.
\<close>

theorem only_exit_returns_zero:
  "lsh_execute (Some ''exit'' # rest) w = Inr (0, w) \<and>
   (lsh_execute args w = Inr (s, w') \<longrightarrow>
      (s = 0 \<and> (\<exists>rest. args = Some ''exit'' # rest)) \<or>
      (s = 1 \<and> (\<forall>rest. args \<noteq> Some ''exit'' # rest))) \<and>
   lsh_execute (None # rest) w = Inr (1, w) \<and>
   (lsh_cd args1 w1 = Inr (s1, w1') \<longrightarrow> s1 = 1) \<and>
   (lsh_help args2 w2 = Inr (s2, w2') \<longrightarrow> s2 = 1) \<and>
   (lsh_launch args3 w3 = Inr (s3, w3') \<longrightarrow> s3 = 1) \<and>
   (lsh_loop n w4 = Done (Inr ((), w4')) \<longleftrightarrow>
      (\<exists>k<n. \<exists>w0. lsh_loop k w4 = Running w0 \<and> loop_body w0 = Inr (0, w4'))) \<and>
   (lsh_loop n w4 = Done (Inr ((), w4')) \<longrightarrow>
      (\<exists>k<n. \<exists>w0 wb cap line wc tcap rest.
         lsh_loop k w4 = Running w0 \<and>
         lsh_shellprompt w0 = Inr ((), wb) \<and> lsh_read_line wb = Inr ((cap, line), wc) \<and>
         lsh_split_line line wc = Inr ((tcap, Some ''exit'' # rest), w4')))"
proof (intro conjI impI)
  show "lsh_execute (Some ''exit'' # rest) w = Inr (0, w)"
    by (rule lsh_execute_exit)
  show "lsh_execute (None # rest) w = Inr (1, w)"
    by (simp add: lsh_execute_def)
  show "(s = 0 \<and> (\<exists>rest. args = Some ''exit'' # rest)) \<or>
        (s = 1 \<and> (\<forall>rest. args \<noteq> Some ''exit'' # rest))"
    if "lsh_execute args w = Inr (s, w')"
    using lsh_execute_status [OF that] by blast
  show "s1 = 1" if "lsh_cd args1 w1 = Inr (s1, w1')"
    using that by (rule lsh_cd_status)
  show "s2 = 1" if "lsh_help args2 w2 = Inr (s2, w2')"
    using that by (rule lsh_help_status)
  show "s3 = 1" if "lsh_launch args3 w3 = Inr (s3, w3')"
    using that by (rule lsh_launch_status)
  show "lsh_loop n w4 = Done (Inr ((), w4')) \<longleftrightarrow>
        (\<exists>k<n. \<exists>w0. lsh_loop k w4 = Running w0 \<and> loop_body w0 = Inr (0, w4'))"
    using lsh_loop_done [of n w4 "()" w4'] lsh_loop_reaches_done [of _ w4 _ w4' n]
    by blast
  show "\<exists>k<n. \<exists>w0 wb cap line wc tcap rest.
         lsh_loop k w4 = Running w0 \<and>
         lsh_shellprompt w0 = Inr ((), wb) \<and> lsh_read_line wb = Inr ((cap, line), wc) \<and>
         lsh_split_line line wc = Inr ((tcap, Some ''exit'' # rest), w4')"
    if "lsh_loop n w4 = Done (Inr ((), w4'))"
    using that by (rule lsh_loop_returns)
qed

theorem only_exit_returns_zero_witness:
  "lsh_execute [Some ''help'', None] quiet_world =
     Inr (1, quiet_world\<lparr>stdout :=
       ''Stephen Brennan'' @ [CHR 0x27] @ ''s LSH'' @ [NL] @
       ''Type program names and arguments, and hit enter.'' @ [NL] @
       ''The following are built in:'' @ [NL] @
       [CHR 0x09] @ ''cd'' @ [NL] @ [CHR 0x09] @ ''help'' @ [NL] @ [CHR 0x09] @ ''exit'' @ [NL] @
       ''Use the man command for information on other programs.'' @ [NL]\<rparr>) \<and>
   (\<forall>rest. [Some ''help'', None] \<noteq> Some ''exit'' # rest) \<and>
   lsh_cd [Some ''cd'', None] quiet_world = Inr (1, quiet_world\<lparr>stderr := cd_usage\<rparr>) \<and>
   lsh_launch [Some ''ls'', None] quiet_world =
     Inr (1, quiet_world\<lparr>stderr := ''lsh: Resource temporarily unavailable'' @ [NL]\<rparr>) \<and>
   lsh_loop (Suc 0) blank_then_exit =
     Running (quiet_world\<lparr>stdin := ''exit'' @ [NL], stdout := ''user@/home/user/projects> ''\<rparr>) \<and>
   loop_body (quiet_world\<lparr>stdin := ''exit'' @ [NL], stdout := ''user@/home/user/projects> ''\<rparr>) =
     Inr (0, quiet_world\<lparr>stdout := ''user@/home/user/projects> user@/home/user/projects> ''\<rparr>) \<and>
   lsh_loop (Suc (Suc 0)) blank_then_exit = Done (Inr ((), quiet_world\<lparr>stdout := ''user@/home/user/projects> user@/home/user/projects> ''\<rparr>)) \<and>
   (\<exists>k<Suc (Suc 0). \<exists>w0 wb cap line wc tcap rest.
      lsh_loop k blank_then_exit = Running w0 \<and>
      lsh_shellprompt w0 = Inr ((), wb) \<and> lsh_read_line wb = Inr ((cap, line), wc) \<and>
      lsh_split_line line wc =
        Inr ((tcap, Some ''exit'' # rest), quiet_world\<lparr>stdout := ''user@/home/user/projects> user@/home/user/projects> ''\<rparr>))"
proof -
  have e: "lsh_execute [Some ''help'', None] quiet_world =
     Inr (1, quiet_world\<lparr>stdout :=
       ''Stephen Brennan'' @ [CHR 0x27] @ ''s LSH'' @ [NL] @
       ''Type program names and arguments, and hit enter.'' @ [NL] @
       ''The following are built in:'' @ [NL] @
       [CHR 0x09] @ ''cd'' @ [NL] @ [CHR 0x09] @ ''help'' @ [NL] @ [CHR 0x09] @ ''exit'' @ [NL] @
       ''Use the man command for information on other programs.'' @ [NL]\<rparr>)"
    unfolding execute_help_quiet by (rule help_quiet)
  note t = only_exit_returns_zero [where ?w4.0 = blank_then_exit and n = "Suc (Suc 0)"
      and ?w4' = "quiet_world\<lparr>stdout := ''user@/home/user/projects> user@/home/user/projects> ''\<rparr>"]
  have k: "\<exists>k<Suc (Suc 0). \<exists>w0. lsh_loop k blank_then_exit = Running w0 \<and>
             loop_body w0 = Inr (0, quiet_world\<lparr>stdout := ''user@/home/user/projects> user@/home/user/projects> ''\<rparr>)"
    using blank_then_exit_loop(1) blank_then_exit_second by blast
  from t [THEN conjunct2, THEN conjunct2, THEN conjunct2, THEN conjunct2, THEN conjunct2,
      THEN conjunct2, THEN conjunct1, THEN iffD2, OF k]
  have d: "lsh_loop (Suc (Suc 0)) blank_then_exit = Done (Inr ((), quiet_world\<lparr>stdout := ''user@/home/user/projects> user@/home/user/projects> ''\<rparr>))" .
  from t [THEN conjunct2, THEN conjunct2, THEN conjunct2, THEN conjunct2, THEN conjunct2,
      THEN conjunct2, THEN conjunct2, rule_format, OF d]
  have x: "\<exists>k<Suc (Suc 0). \<exists>w0 wb cap line wc tcap rest.
      lsh_loop k blank_then_exit = Running w0 \<and>
      lsh_shellprompt w0 = Inr ((), wb) \<and> lsh_read_line wb = Inr ((cap, line), wc) \<and>
      lsh_split_line line wc =
        Inr ((tcap, Some ''exit'' # rest), quiet_world\<lparr>stdout := ''user@/home/user/projects> user@/home/user/projects> ''\<rparr>)" .
  have ne: "\<forall>rest. [Some ''help'', None] \<noteq> Some ''exit'' # rest"
    by simp
  from e ne cd_quiet launch_quiet blank_then_exit_loop(1) blank_then_exit_second d x
  show ?thesis by (intro conjI)
qed

text \<open>
  Claim C10. At the end of the input the read loop returns the characters read so far
  and the terminator, an empty line when there were none. With an allocator that grants,
  a pass of the main loop at the end of the input prints the prompt, gives the
  continuation signal 1 and leaves the input at its end; so after \<open>n\<close> passes, for any
  \<open>n\<close>, the loop is about to start the next one and has printed the prompt \<open>n\<close> times,
  with nothing on the diagnostic stream. The loop returns only from a pass of its own run
  in which the line read began with the token \<^verbatim>\<open>exit\<close>.
\<close>

theorem end_of_input_keeps_shell_running:
  assumes "stdin w = []"
  shows "(position < bufsize \<longrightarrow>
            read_loop bufsize position buffer w = Inr ((bufsize, buffer @ [NUL]), w)) \<and>
         (never_fails w \<longrightarrow>
            lsh_read_line w = Inr ((LSH_RL_BUFSIZE, [NUL]), w\<lparr>heap := tl (heap w)\<rparr>) \<and>
            (\<exists>k. loop_body w =
                    Inr (1, w\<lparr>heap := drop k (heap w),
                              stdout := stdout w @ prompt_text (env_USER w) (Some (cwd w))\<rparr>)) \<and>
            (\<exists>k. lsh_loop n w =
                    Running (w\<lparr>heap := drop k (heap w),
                               stdout := stdout w @
                                 concat (replicate n (prompt_text (env_USER w) (Some (cwd w))))\<rparr>))) \<and>
         (lsh_loop m wa = Done (Inr ((), wb)) \<longrightarrow>
            (\<exists>k<m. \<exists>w0 w1 cap line w2 tcap rest.
               lsh_loop k wa = Running w0 \<and>
               lsh_shellprompt w0 = Inr ((), w1) \<and> lsh_read_line w1 = Inr ((cap, line), w2) \<and>
               lsh_split_line line w2 = Inr ((tcap, Some ''exit'' # rest), wb)))"
proof (intro conjI impI)
  show "read_loop bufsize position buffer w = Inr ((bufsize, buffer @ [NUL]), w)"
    if "position < bufsize"
    using assms that by (rule read_loop_eof)
  show "lsh_read_line w = Inr ((LSH_RL_BUFSIZE, [NUL]), w\<lparr>heap := tl (heap w)\<rparr>)"
    if "never_fails w"
    using lsh_read_line_full [OF that] assms
    by (auto simp: LSH_RL_BUFSIZE_def drop_Suc intro!: world.equality)
  show "\<exists>k. loop_body w =
               Inr (1, w\<lparr>heap := drop k (heap w),
                         stdout := stdout w @ prompt_text (env_USER w) (Some (cwd w))\<rparr>)"
    if "never_fails w"
    using assms that by (rule loop_body_eof)
  show "\<exists>k. lsh_loop n w =
               Running (w\<lparr>heap := drop k (heap w),
                          stdout := stdout w @
                            concat (replicate n (prompt_text (env_USER w) (Some (cwd w))))\<rparr>)"
    if "never_fails w"
    using assms that by (rule lsh_loop_eof)
  show "\<exists>k<m. \<exists>w0 w1 cap line w2 tcap rest.
          lsh_loop k wa = Running w0 \<and>
          lsh_shellprompt w0 = Inr ((), w1) \<and> lsh_read_line w1 = Inr ((cap, line), w2) \<and>
          lsh_split_line line w2 = Inr ((tcap, Some ''exit'' # rest), wb)"
    if "lsh_loop m wa = Done (Inr ((), wb))"
    using that by (rule lsh_loop_returns)
qed

theorem end_of_input_keeps_shell_running_witness:
  "stdin quiet_world = [] \<and> never_fails quiet_world \<and>
   read_loop 1024 0 [] quiet_world = Inr ((1024, [NUL]), quiet_world) \<and>
   lsh_read_line quiet_world = Inr ((1024, [NUL]), quiet_world) \<and>
   loop_body quiet_world = Inr (1, quiet_world\<lparr>stdout := ''user@/home/user/projects> ''\<rparr>) \<and>
   lsh_loop (Suc (Suc 0)) quiet_world = Running (quiet_world\<lparr>stdout := ''user@/home/user/projects> user@/home/user/projects> ''\<rparr>) \<and>
   lsh_loop (Suc (Suc 0)) blank_then_exit = Done (Inr ((), quiet_world\<lparr>stdout := ''user@/home/user/projects> user@/home/user/projects> ''\<rparr>)) \<and>
   (\<exists>k<Suc (Suc 0). \<exists>w0 w1 cap line w2 tcap rest.
      lsh_loop k blank_then_exit = Running w0 \<and>
      lsh_shellprompt w0 = Inr ((), w1) \<and> lsh_read_line w1 = Inr ((cap, line), w2) \<and>
      lsh_split_line line w2 =
        Inr ((tcap, Some ''exit'' # rest), quiet_world\<lparr>stdout := ''user@/home/user/projects> user@/home/user/projects> ''\<rparr>))"
proof -
  have a: "stdin quiet_world = []"
    by (simp add: quiet_world_def)
  have nf: "never_fails quiet_world"
    by (simp add: never_fails_def quiet_world_def)
  have h: "heap quiet_world = []"
    by (simp add: quiet_world_def)
  have q: "quiet_world\<lparr>heap := []\<rparr> = quiet_world"
    by (simp add: quiet_world_def)
  have t: "prompt_text (env_USER quiet_world) (Some (cwd quiet_world)) = ''user@/home/user/projects> ''"
    by (simp add: prompt_text_def quiet_world_def)
  have o: "stdout quiet_world = []"
    by (simp add: quiet_world_def)
  note c = end_of_input_keeps_shell_running [OF a, where position = 0 and bufsize = 1024
      and buffer = "[]" and n = "Suc (Suc 0)" and m = "Suc (Suc 0)" and wa = blank_then_exit
      and wb = "quiet_world\<lparr>stdout := ''user@/home/user/projects> user@/home/user/projects> ''\<rparr>"]
  from c [THEN conjunct1]
  have r1: "read_loop 1024 0 [] quiet_world = Inr ((1024, [NUL]), quiet_world)"
    by simp
  from c [THEN conjunct2, THEN conjunct1, rule_format, OF nf]
  have r2: "lsh_read_line quiet_world = Inr ((1024, [NUL]), quiet_world)"
    and r3: "loop_body quiet_world = Inr (1, quiet_world\<lparr>stdout := ''user@/home/user/projects> ''\<rparr>)"
    and r4: "lsh_loop (Suc (Suc 0)) quiet_world = Running (quiet_world\<lparr>stdout := ''user@/home/user/projects> user@/home/user/projects> ''\<rparr>)"
    by (simp_all add: h q t o LSH_RL_BUFSIZE_def del: lsh_loop.simps)
  from c [THEN conjunct2, THEN conjunct2, rule_format, OF blank_then_exit_loop(2)]
  have r5: "\<exists>k<Suc (Suc 0). \<exists>w0 w1 cap line w2 tcap rest.
      lsh_loop k blank_then_exit = Running w0 \<and>
      lsh_shellprompt w0 = Inr ((), w1) \<and> lsh_read_line w1 = Inr ((cap, line), w2) \<and>
      lsh_split_line line w2 =
        Inr ((tcap, Some ''exit'' # rest), quiet_world\<lparr>stdout := ''user@/home/user/projects> user@/home/user/projects> ''\<rparr>)" .
  from a nf r1 r2 r3 r4 blank_then_exit_loop(2) r5 show ?thesis by (intro conjI)
qed

end
